theory Spec2Isabelle
  imports Complex_Main "HOL-Library.Monad_Syntax"
begin

section \<open>Command model\<close>

text \<open>
  The path engine of \<^verbatim>\<open>path.go\<close>. Coordinates are Go \<^verbatim>\<open>float64\<close> values; they are
  modelled as \<^typ>\<open>real\<close>, so arithmetic is exact. A Go runtime panic (index or slice
  bounds out of range) is the result \<open>None\<close> of a function returning an option.
\<close>

datatype PathCmd = MoveToCmd | LineToCmd | QuadToCmd | CubeToCmd | ArcToCmd | CloseCmd

fun Len :: "PathCmd \<Rightarrow> nat" where
  "Len MoveToCmd = 2"
| "Len LineToCmd = 2"
| "Len CloseCmd = 2"
| "Len QuadToCmd = 4"
| "Len CubeToCmd = 6"
| "Len ArcToCmd = 7"

record Path =
  cmds :: "PathCmd list"
  d :: "real list"
  x0 :: real
  y0 :: real

type_synonym Point = "real \<times> real"

text \<open>The zero value \<^verbatim>\<open>&Path{}\<close>.\<close>

definition empty_path :: Path where
  "empty_path = \<lparr>cmds = [], d = [], x0 = 0, y0 = 0\<rparr>"

text \<open>\<^verbatim>\<open>xs[k]\<close>: the read panics when \<open>k\<close> is out of range.\<close>

definition idx :: "'a list \<Rightarrow> nat \<Rightarrow> 'a option" where
  "idx xs k = (if k < length xs then Some (xs ! k) else None)"

text \<open>
  \<^verbatim>\<open>xs[lo:hi]\<close> and \<^verbatim>\<open>xs[lo:]\<close>. Go allows \<open>hi\<close> up to the capacity of the slice; the
  model takes the capacity to be the length, so a slice beyond the length panics.
\<close>

definition slice :: "'a list \<Rightarrow> nat \<Rightarrow> nat \<Rightarrow> 'a list option" where
  "slice xs lo hi = (if lo \<le> hi \<and> hi \<le> length xs then Some (take (hi - lo) (drop lo xs)) else None)"

definition slice_from :: "'a list \<Rightarrow> nat \<Rightarrow> 'a list option" where
  "slice_from xs lo = (if lo \<le> length xs then Some (drop lo xs) else None)"

text \<open>
  Modelled from the spec: \<^verbatim>\<open>Equal\<close> and its tolerance are not in \<^verbatim>\<open>src/\<close>. The spec
  (sections 4.3 and 8) has coincidence "within numeric tolerance", with "a small epsilon,
  e.g. 1e-10, for all Equal comparisons throughout".
\<close>

definition Epsilon :: real where
  "Epsilon = 1 / 10 ^ 10"

definition Equal :: "real \<Rightarrow> real \<Rightarrow> bool" where
  "Equal a b \<longleftrightarrow> \<bar>a - b\<bar> < Epsilon"

section \<open>Path buffer\<close>

definition IsEmpty :: "Path \<Rightarrow> bool" where
  "IsEmpty p \<longleftrightarrow> length (cmds p) = 0"

definition Copy :: "Path \<Rightarrow> Path" where
  "Copy p = \<lparr>cmds = [] @ cmds p, d = [] @ d p, x0 = x0 p, y0 = y0 p\<rparr>"

definition Pos :: "Path \<Rightarrow> Point" where
  "Pos p = (if length (d p) > 1 then (d p ! (length (d p) - 2), d p ! (length (d p) - 1)) else (0, 0))"

definition Start :: "Path \<Rightarrow> Point" where
  "Start p = (x0 p, y0 p)"

definition MoveTo :: "Path \<Rightarrow> real \<Rightarrow> real \<Rightarrow> Path" where
  "MoveTo p x y = p\<lparr>cmds := cmds p @ [MoveToCmd], d := d p @ [x, y], x0 := x, y0 := y\<rparr>"

definition LineTo :: "Path \<Rightarrow> real \<Rightarrow> real \<Rightarrow> Path" where
  "LineTo p x y = p\<lparr>cmds := cmds p @ [LineToCmd], d := d p @ [x, y]\<rparr>"

definition QuadTo :: "Path \<Rightarrow> real \<Rightarrow> real \<Rightarrow> real \<Rightarrow> real \<Rightarrow> Path" where
  "QuadTo p x1 y1 x y = p\<lparr>cmds := cmds p @ [QuadToCmd], d := d p @ [x1, y1, x, y]\<rparr>"

definition CubeTo :: "Path \<Rightarrow> real \<Rightarrow> real \<Rightarrow> real \<Rightarrow> real \<Rightarrow> real \<Rightarrow> real \<Rightarrow> Path" where
  "CubeTo p x1 y1 x2 y2 x y = p\<lparr>cmds := cmds p @ [CubeToCmd], d := d p @ [x1, y1, x2, y2, x, y]\<rparr>"

definition ArcTo :: "Path \<Rightarrow> real \<Rightarrow> real \<Rightarrow> real \<Rightarrow> bool \<Rightarrow> bool \<Rightarrow> real \<Rightarrow> real \<Rightarrow> Path" where
  "ArcTo p rx ry rot large sweep x y =
     (let flarge = (if large then 1 else 0);
          fsweep = (if sweep then 1 else 0)
      in p\<lparr>cmds := cmds p @ [ArcToCmd], d := d p @ [rx, ry, rot, flarge, fsweep, x, y]\<rparr>)"

definition Close :: "Path \<Rightarrow> Path" where
  "Close p = p\<lparr>cmds := cmds p @ [CloseCmd], d := d p @ [x0 p, y0 p]\<rparr>"

definition Rect :: "Path \<Rightarrow> real \<Rightarrow> real \<Rightarrow> real \<Rightarrow> real \<Rightarrow> Path" where
  "Rect p x y w h =
     Close (LineTo (LineTo (LineTo (MoveTo p x y) (x + w) y) (x + w) (y + h)) x (y + h))"

definition Ellipse :: "Path \<Rightarrow> real \<Rightarrow> real \<Rightarrow> real \<Rightarrow> real \<Rightarrow> Path" where
  "Ellipse p x y rx ry =
     Close (ArcTo (ArcTo (MoveTo p (x + rx) y) rx ry 0 False False (x - rx) y)
                  rx ry 0 False False (x + rx) y)"

section \<open>Reverse\<close>

definition prevEnd :: "real list \<Rightarrow> Point" where
  "prevEnd ds = (if length ds > 1 then (ds ! (length ds - 2), ds ! (length ds - 1)) else (0, 0))"

text \<open>
  The loop of \<^verbatim>\<open>Reverse\<close> runs \<open>icmd\<close> from \<open>len(p.cmds) - 1\<close> down to \<open>0\<close>; the second
  argument is \<open>icmd + 1\<close>. The coordinate offset \<open>i\<close> is decremented by the arity of the
  command first; where it would become negative, the slice \<^verbatim>\<open>p.d[:i]\<close> or the read
  \<^verbatim>\<open>p.d[i+0]\<close> that follows panics. \<open>i\<close> starts as \<open>len(p.d)\<close> and only decreases, so
  the reads at \<open>i + k\<close> below the old \<open>i\<close> are in range.
\<close>

fun Reverse_loop :: "Path \<Rightarrow> nat \<Rightarrow> Path \<Rightarrow> Point \<Rightarrow> Point \<Rightarrow> bool \<Rightarrow> nat \<Rightarrow> Path option" where
  "Reverse_loop p 0 ip (xEnd, yEnd) (xStart, yStart) closed' i =
     Some (if closed' then Close ip else ip)"
| "Reverse_loop p (Suc icmd) ip (xEnd, yEnd) (xStart, yStart) closed' i =
     (case cmds p ! icmd of
        CloseCmd \<Rightarrow>
          if i < 2 then None
          else
            let i = i - 2;
                (xEnd, yEnd) = prevEnd (take i (d p));
                ip = (if \<not> Equal xStart xEnd \<or> \<not> Equal yStart yEnd then LineTo ip xEnd yEnd else ip)
            in Reverse_loop p icmd ip (xEnd, yEnd) (xEnd, yEnd) True i
      | MoveToCmd \<Rightarrow>
          if i < 2 then None
          else
            let i = i - 2;
                ip = (if closed' then Close ip else ip);
                (xEnd, yEnd) = prevEnd (take i (d p));
                ip = (if \<not> Equal xEnd 0 \<or> \<not> Equal yEnd 0 then MoveTo ip xEnd yEnd else ip)
            in Reverse_loop p icmd ip (xEnd, yEnd) (xEnd, yEnd) False i
      | LineToCmd \<Rightarrow>
          if i < 2 then None
          else
            let i = i - 2 in
            if closed' \<and> (icmd = 0 \<or> cmds p ! (icmd - 1) = MoveToCmd)
            then Reverse_loop p icmd (Close ip) (xEnd, yEnd) (xEnd, yEnd) False i
            else
              let (xEnd, yEnd) = prevEnd (take i (d p))
              in Reverse_loop p icmd (LineTo ip xEnd yEnd) (xEnd, yEnd) (xEnd, yEnd) closed' i
      | QuadToCmd \<Rightarrow>
          if i < 4 then None
          else
            let i = i - 4;
                x1 = d p ! i; y1 = d p ! (i + 1);
                (xEnd, yEnd) = prevEnd (take i (d p))
            in Reverse_loop p icmd (QuadTo ip x1 y1 xEnd yEnd) (xEnd, yEnd) (xEnd, yEnd) closed' i
      | CubeToCmd \<Rightarrow>
          if i < 6 then None
          else
            let i = i - 6;
                x1 = d p ! (i + 2); y1 = d p ! (i + 3);
                x2 = d p ! i; y2 = d p ! (i + 1);
                (xEnd, yEnd) = prevEnd (take i (d p))
            in Reverse_loop p icmd (CubeTo ip x1 y1 x2 y2 xEnd yEnd) (xEnd, yEnd) (xEnd, yEnd) closed' i
      | ArcToCmd \<Rightarrow>
          if i < 7 then None
          else
            let i = i - 7;
                rx = d p ! i; ry = d p ! (i + 1);
                rot = d p ! (i + 2); largeArc = d p ! (i + 3); sweep = d p ! (i + 4);
                sweep = (if sweep = 0 then 1 else 0);
                (xEnd, yEnd) = prevEnd (take i (d p))
            in Reverse_loop p icmd (ArcTo ip rx ry rot (largeArc = 1) (sweep = (1::real)) xEnd yEnd)
                 (xEnd, yEnd) (xEnd, yEnd) closed' i)"

definition Reverse :: "Path \<Rightarrow> Path option" where
  "Reverse p =
     (let ip = empty_path in
      if length (cmds p) = 0 then Some ip
      else
        let (xEnd, yEnd) = prevEnd (d p);
            ip = (if \<not> Equal xEnd 0 \<or> \<not> Equal yEnd 0 then MoveTo ip xEnd yEnd else ip)
        in Reverse_loop p (length (cmds p)) ip (xEnd, yEnd) (xEnd, yEnd) False (length (d p)))"

section \<open>SVG path codec\<close>

text \<open>
  The serializer. \<^verbatim>\<open>ftos\<close>, the number formatter, is not in \<^verbatim>\<open>src/\<close>: it is a parameter.
\<close>

fun ToSVGPath_loop :: "(real \<Rightarrow> string) \<Rightarrow> real list \<Rightarrow> PathCmd list \<Rightarrow> nat \<Rightarrow> real \<Rightarrow> real \<Rightarrow> string \<Rightarrow> string option" where
  "ToSVGPath_loop ftos ds [] i x y svg = Some svg"
| "ToSVGPath_loop ftos ds (cmd # rest) i x y svg =
     (case cmd of
        MoveToCmd \<Rightarrow> do {
          x \<leftarrow> idx ds i; y \<leftarrow> idx ds (i + 1);
          ToSVGPath_loop ftos ds rest (i + 2) x y (svg @ ''M'' @ ftos x @ '' '' @ ftos y)
        }
      | LineToCmd \<Rightarrow> do {
          let xStart = x; let yStart = y;
          x \<leftarrow> idx ds i; y \<leftarrow> idx ds (i + 1);
          let svg =
            (if Equal x xStart \<and> Equal y yStart then svg
             else if Equal x xStart then svg @ ''V'' @ ftos y
             else if Equal y yStart then svg @ ''H'' @ ftos x
             else svg @ ''L'' @ ftos x @ '' '' @ ftos y);
          ToSVGPath_loop ftos ds rest (i + 2) x y svg
        }
      | QuadToCmd \<Rightarrow> do {
          x \<leftarrow> idx ds (i + 2); y \<leftarrow> idx ds (i + 3);
          a \<leftarrow> idx ds i; b \<leftarrow> idx ds (i + 1);
          ToSVGPath_loop ftos ds rest (i + 4) x y
            (svg @ ''Q'' @ ftos a @ '' '' @ ftos b @ '' '' @ ftos x @ '' '' @ ftos y)
        }
      | CubeToCmd \<Rightarrow> do {
          x \<leftarrow> idx ds (i + 4); y \<leftarrow> idx ds (i + 5);
          a \<leftarrow> idx ds i; b \<leftarrow> idx ds (i + 1); c \<leftarrow> idx ds (i + 2); e \<leftarrow> idx ds (i + 3);
          ToSVGPath_loop ftos ds rest (i + 6) x y
            (svg @ ''C'' @ ftos a @ '' '' @ ftos b @ '' '' @ ftos c @ '' '' @ ftos e
                 @ '' '' @ ftos x @ '' '' @ ftos y)
        }
      | ArcToCmd \<Rightarrow> do {
          x \<leftarrow> idx ds (i + 5); y \<leftarrow> idx ds (i + 6);
          a \<leftarrow> idx ds i; b \<leftarrow> idx ds (i + 1); c \<leftarrow> idx ds (i + 2);
          e \<leftarrow> idx ds (i + 3); f \<leftarrow> idx ds (i + 4);
          ToSVGPath_loop ftos ds rest (i + 7) x y
            (svg @ ''A'' @ ftos a @ '' '' @ ftos b @ '' '' @ ftos c @ '' '' @ ftos e
                 @ '' '' @ ftos f @ '' '' @ ftos x @ '' '' @ ftos y)
        }
      | CloseCmd \<Rightarrow> do {
          x \<leftarrow> idx ds i; y \<leftarrow> idx ds (i + 1);
          ToSVGPath_loop ftos ds rest (i + 2) x y (svg @ ''z'')
        })"

definition ToSVGPath :: "(real \<Rightarrow> string) \<Rightarrow> Path \<Rightarrow> string option" where
  "ToSVGPath ftos p =
     (let svg = (if length (cmds p) > 0 \<and> cmds p ! 0 \<noteq> MoveToCmd then ''M0 0'' else [])
      in ToSVGPath_loop ftos (d p) (cmds p) 0 0 0 svg)"

text \<open>
  The parser. \<^verbatim>\<open>strconv.ParseFloat\<close> belongs to an external library
  (\<^verbatim>\<open>github.com/tdewolff/parse/strconv\<close>): it is the parameter \<open>pf\<close>, which takes the bytes
  left and returns the number read and the count of bytes it consumed.
\<close>

definition skipCommaWhitespace :: "string \<Rightarrow> nat" where
  "skipCommaWhitespace path =
     length (takeWhile (\<lambda>c. c = CHR '' '' \<or> c = CHR '','' \<or> c = CHR 0x0A \<or> c = CHR 0x0D \<or> c = CHR 0x09) path)"

definition parseNum :: "(string \<Rightarrow> real \<times> nat) \<Rightarrow> string \<Rightarrow> real \<times> nat" where
  "parseNum pf path =
     (let i = skipCommaWhitespace path;
          (f, n) = pf (drop i path)
      in (f, i + n))"

text \<open>The statement pair \<^verbatim>\<open>a, n := parseNum(path[i:]); i += n\<close>; the slice panics when \<open>i\<close> is beyond the text.\<close>

definition num :: "(string \<Rightarrow> real \<times> nat) \<Rightarrow> string \<Rightarrow> nat \<Rightarrow> (real \<times> nat) option" where
  "num pf path i = do {
     s \<leftarrow> slice_from path i;
     let (a, n) = parseNum pf s;
     Some (a, i + n)
   }"

text \<open>
  One iteration of the loop of \<^verbatim>\<open>ParseSVGPath\<close>, on the state
  \<open>(p, prevCmd, cpx, cpy, i)\<close>. \<open>prevCmd\<close> starts as the zero byte.
\<close>

definition ParseSVGPath_step ::
  "(string \<Rightarrow> real \<times> nat) \<Rightarrow> string \<Rightarrow> Path \<times> char \<times> real \<times> real \<times> nat
     \<Rightarrow> (Path \<times> char \<times> real \<times> real \<times> nat) option" where
  "ParseSVGPath_step pf path st =
     (case st of (p, prevCmd, cpx, cpy, i) \<Rightarrow> do {
        s \<leftarrow> slice_from path i;
        let i = i + skipCommaWhitespace s;
        c \<leftarrow> idx path i;
        let (cmd, i) = (if (of_char c :: nat) \<ge> 65 then (c, i + 1) else (prevCmd, i));
        let (x, y) = Pos p;
        if cmd = CHR ''M'' \<or> cmd = CHR ''m'' then do {
          (a, i) \<leftarrow> num pf path i;
          (b, i) \<leftarrow> num pf path i;
          let (a, b) = (if cmd = CHR ''m'' then (a + x, b + y) else (a, b));
          Some (MoveTo p a b, cmd, cpx, cpy, i)
        }
        else if cmd = CHR ''Z'' \<or> cmd = CHR ''z'' then
          Some (Close p, cmd, cpx, cpy, i)
        else if cmd = CHR ''L'' \<or> cmd = CHR ''l'' then do {
          (a, i) \<leftarrow> num pf path i;
          (b, i) \<leftarrow> num pf path i;
          let (a, b) = (if cmd = CHR ''l'' then (a + x, b + y) else (a, b));
          Some (LineTo p a b, cmd, cpx, cpy, i)
        }
        else if cmd = CHR ''H'' \<or> cmd = CHR ''h'' then do {
          (a, i) \<leftarrow> num pf path i;
          let a = (if cmd = CHR ''h'' then a + x else a);
          Some (LineTo p a y, cmd, cpx, cpy, i)
        }
        else if cmd = CHR ''V'' \<or> cmd = CHR ''v'' then do {
          (b, i) \<leftarrow> num pf path i;
          let b = (if cmd = CHR ''v'' then b + y else b);
          Some (LineTo p x b, cmd, cpx, cpy, i)
        }
        else if cmd = CHR ''C'' \<or> cmd = CHR ''c'' then do {
          (a, i) \<leftarrow> num pf path i;
          (b, i) \<leftarrow> num pf path i;
          (c, i) \<leftarrow> num pf path i;
          (e, i) \<leftarrow> num pf path i;
          (f, i) \<leftarrow> num pf path i;
          (g, i) \<leftarrow> num pf path i;
          let (a, b, c, e, f, g) =
            (if cmd = CHR ''c'' then (a + x, b + y, c + x, e + y, f + x, g + y) else (a, b, c, e, f, g));
          Some (CubeTo p a b c e f g, cmd, c, e, i)
        }
        else if cmd = CHR ''S'' \<or> cmd = CHR ''s'' then do {
          (c, i) \<leftarrow> num pf path i;
          (e, i) \<leftarrow> num pf path i;
          (f, i) \<leftarrow> num pf path i;
          (g, i) \<leftarrow> num pf path i;
          let (c, e, f, g) = (if cmd = CHR ''s'' then (c + x, e + y, f + x, g + y) else (c, e, f, g));
          let (a, b) =
            (if prevCmd = CHR ''C'' \<or> prevCmd = CHR ''c'' \<or> prevCmd = CHR ''S'' \<or> prevCmd = CHR ''s''
             then (2 * x - cpx, 2 * y - cpy) else (x, y));
          Some (CubeTo p a b c e f g, cmd, c, e, i)
        }
        else if cmd = CHR ''Q'' \<or> cmd = CHR ''q'' then do {
          (a, i) \<leftarrow> num pf path i;
          (b, i) \<leftarrow> num pf path i;
          (c, i) \<leftarrow> num pf path i;
          (e, i) \<leftarrow> num pf path i;
          let (a, b, c, e) = (if cmd = CHR ''q'' then (a + x, b + y, c + x, e + y) else (a, b, c, e));
          Some (QuadTo p a b c e, cmd, a, b, i)
        }
        else if cmd = CHR ''T'' \<or> cmd = CHR ''t'' then do {
          (c, i) \<leftarrow> num pf path i;
          (e, i) \<leftarrow> num pf path i;
          let (c, e) = (if cmd = CHR ''t'' then (c + x, e + y) else (c, e));
          let (a, b) =
            (if prevCmd = CHR ''Q'' \<or> prevCmd = CHR ''q'' \<or> prevCmd = CHR ''T'' \<or> prevCmd = CHR ''t''
             then (2 * x - cpx, 2 * y - cpy) else (x, y));
          Some (QuadTo p a b c e, cmd, a, b, i)
        }
        else if cmd = CHR ''A'' \<or> cmd = CHR ''a'' then do {
          (a, i) \<leftarrow> num pf path i;
          (b, i) \<leftarrow> num pf path i;
          (c, i) \<leftarrow> num pf path i;
          (e, i) \<leftarrow> num pf path i;
          (f, i) \<leftarrow> num pf path i;
          (g, i) \<leftarrow> num pf path i;
          (h, i) \<leftarrow> num pf path i;
          let (g, h) = (if cmd = CHR ''a'' then (g + x, h + y) else (g, h));
          let large = (\<bar>e - 1\<bar> < 1 / 10 ^ 10);
          let sweep = (\<bar>f - 1\<bar> < 1 / 10 ^ 10);
          Some (ArcTo p a b c large sweep g h, cmd, cpx, cpy, i)
        }
        else Some (p, cmd, cpx, cpy, i)
      })"

text \<open>
  The loop \<^verbatim>\<open>for i < len(path)\<close>. Nothing bounds the number of iterations, so the loop
  is a partial function: the result \<open>None\<close> is a run that never ends, \<open>Some None\<close> a run
  that panics, \<open>Some (Some p)\<close> a run that returns \<open>p\<close>.
\<close>

partial_function (option) ParseSVGPath_loop ::
  "(string \<Rightarrow> real \<times> nat) \<Rightarrow> string \<Rightarrow> Path \<times> char \<times> real \<times> real \<times> nat \<Rightarrow> Path option option" where
  "ParseSVGPath_loop pf path st =
     (if snd (snd (snd (snd st))) < length path
      then (case ParseSVGPath_step pf path st of
              None \<Rightarrow> Some None
            | Some st' \<Rightarrow> ParseSVGPath_loop pf path st')
      else Some (Some (fst st)))"

declare ParseSVGPath_loop.simps [code]

definition ParseSVGPath :: "(string \<Rightarrow> real \<times> nat) \<Rightarrow> string \<Rightarrow> Path option option" where
  "ParseSVGPath pf sPath = ParseSVGPath_loop pf sPath (empty_path, CHR 0x00, 0, 0, 0)"

section \<open>Path algebra\<close>

text \<open>
  \<^verbatim>\<open>Append\<close> returns the receiver \<open>p\<close> after the update. The reads \<^verbatim>\<open>p.d[len(p.d)-2]\<close>
  and \<^verbatim>\<open>q.d[0]\<close>, \<^verbatim>\<open>q.d[1]\<close> panic on a buffer shorter than two.
\<close>

definition Append :: "Path \<Rightarrow> Path \<Rightarrow> Path option" where
  "Append p q =
     (if length (cmds q) = 0 then Some p
      else do {
        q \<leftarrow>
          (if length (cmds p) > 0 \<and> cmds q ! 0 = MoveToCmd then
             if length (d p) < 2 then None
             else do {
               let xa = d p ! (length (d p) - 2); let ya = d p ! (length (d p) - 1);
               xb \<leftarrow> idx (d q) 0; yb \<leftarrow> idx (d q) 1;
               if Equal xa xb \<and> Equal ya yb
               then Some (q\<lparr>cmds := drop 1 (cmds q), d := drop 2 (d q)\<rparr>)
               else Some q
             }
           else Some q);
        Some (p\<lparr>cmds := cmds p @ cmds q, d := d p @ d q, x0 := x0 q, y0 := y0 q\<rparr>)
      })"

text \<open>\<^verbatim>\<open>p.d[k] += v\<close>, which panics when \<open>k\<close> is out of range.\<close>

definition add_at :: "real list \<Rightarrow> nat \<Rightarrow> real \<Rightarrow> real list option" where
  "add_at ds k v = (if k < length ds then Some (ds[k := ds ! k + v]) else None)"

fun Translate_loop :: "PathCmd list \<Rightarrow> real list \<Rightarrow> nat \<Rightarrow> real \<Rightarrow> real \<Rightarrow> real list option" where
  "Translate_loop [] ds i x y = Some ds"
| "Translate_loop (cmd # rest) ds i x y =
     (case cmd of
        QuadToCmd \<Rightarrow> do {
          ds \<leftarrow> add_at ds i x; ds \<leftarrow> add_at ds (i + 1) y;
          ds \<leftarrow> add_at ds (i + 2) x; ds \<leftarrow> add_at ds (i + 3) y;
          Translate_loop rest ds (i + 4) x y
        }
      | CubeToCmd \<Rightarrow> do {
          ds \<leftarrow> add_at ds i x; ds \<leftarrow> add_at ds (i + 1) y;
          ds \<leftarrow> add_at ds (i + 2) x; ds \<leftarrow> add_at ds (i + 3) y;
          ds \<leftarrow> add_at ds (i + 4) x; ds \<leftarrow> add_at ds (i + 5) y;
          Translate_loop rest ds (i + 6) x y
        }
      | ArcToCmd \<Rightarrow> do {
          ds \<leftarrow> add_at ds (i + 5) x; ds \<leftarrow> add_at ds (i + 6) y;
          Translate_loop rest ds (i + 7) x y
        }
      | _ \<Rightarrow> do {
          ds \<leftarrow> add_at ds i x; ds \<leftarrow> add_at ds (i + 1) y;
          Translate_loop rest ds (i + 2) x y
        })"

definition Translate :: "Path \<Rightarrow> real \<Rightarrow> real \<Rightarrow> Path option" where
  "Translate p x y =
     (let p = Copy p;
          p = (if length (cmds p) > 0 \<and> cmds p ! 0 \<noteq> MoveToCmd
               then p\<lparr>cmds := [MoveToCmd] @ cmds p, d := [0, 0] @ d p\<rparr> else p)
      in do {
        ds \<leftarrow> Translate_loop (cmds p) (d p) 0 x y;
        Some (p\<lparr>d := ds\<rparr>)
      })"

text \<open>
  \<^verbatim>\<open>Split\<close>. The fragment \<^verbatim>\<open>&Path{p.cmds[icmd:jcmd], p.d[i:j], x0, y0}\<close>; the local
  variables \<^verbatim>\<open>x0\<close>, \<^verbatim>\<open>y0\<close> of the source are \<open>sx\<close>, \<open>sy\<close> here. The loop runs over
  the commands from \<open>jcmd\<close> on (the second argument of \<open>Split_loop\<close>), and the last
  fragment is appended when the loop has ended. The fragments are the paths that the
  slices show when \<^verbatim>\<open>Split\<close> returns; the slices themselves, which share the arrays of
  \<open>p\<close>, are those of \<open>Split_in\<close> in the section on shared arrays.
\<close>

definition fragment :: "Path \<Rightarrow> nat \<Rightarrow> nat \<Rightarrow> nat \<Rightarrow> nat \<Rightarrow> real \<Rightarrow> real \<Rightarrow> Path option" where
  "fragment p icmd jcmd i j sx sy = do {
     cs \<leftarrow> slice (cmds p) icmd jcmd;
     ds \<leftarrow> slice (d p) i j;
     Some \<lparr>cmds = cs, d = ds, x0 = sx, y0 = sy\<rparr>
   }"

fun Split_loop :: "Path \<Rightarrow> PathCmd list \<Rightarrow> Path list \<Rightarrow> bool \<Rightarrow> nat \<Rightarrow> nat \<Rightarrow> nat \<Rightarrow> nat \<Rightarrow> real \<Rightarrow> real \<Rightarrow> Path list option" where
  "Split_loop p [] ps closed' i j icmd jcmd sx sy =
     (if j > i then do { f \<leftarrow> fragment p icmd jcmd i j sx sy; Some (ps @ [f]) } else Some ps)"
| "Split_loop p (cmd # rest) ps closed' i j icmd jcmd sx sy = do {
     (ps, icmd, i, closed') \<leftarrow>
       (if j > i \<and> cmd = MoveToCmd \<or> closed'
        then do { f \<leftarrow> fragment p icmd jcmd i j sx sy; Some (ps @ [f], jcmd, j, False) }
        else Some (ps, icmd, i, closed'));
     case cmd of
       MoveToCmd \<Rightarrow> do {
         sx \<leftarrow> idx (d p) j; sy \<leftarrow> idx (d p) (j + 1);
         Split_loop p rest ps closed' i (j + 2) icmd (jcmd + 1) sx sy
       }
     | LineToCmd \<Rightarrow> Split_loop p rest ps closed' i (j + 2) icmd (jcmd + 1) sx sy
     | QuadToCmd \<Rightarrow> Split_loop p rest ps closed' i (j + 4) icmd (jcmd + 1) sx sy
     | CubeToCmd \<Rightarrow> Split_loop p rest ps closed' i (j + 6) icmd (jcmd + 1) sx sy
     | ArcToCmd \<Rightarrow> Split_loop p rest ps closed' i (j + 7) icmd (jcmd + 1) sx sy
     | CloseCmd \<Rightarrow> Split_loop p rest ps True i (j + 2) icmd (jcmd + 1) sx sy
   }"

definition Split :: "Path \<Rightarrow> Path list option" where
  "Split p = Split_loop p (cmds p) [] False 0 0 0 0 0 0"

section \<open>Curve flattening\<close>

text \<open>
  \<^verbatim>\<open>replaceCmd\<close> returns the path and the two counters it updates through pointers.
  \<open>icmd\<close> is a Go \<^verbatim>\<open>int\<close> and becomes \<open>-1\<close> when the first command is replaced by nothing.
\<close>

definition replaceCmd :: "Path \<Rightarrow> nat \<Rightarrow> nat \<Rightarrow> Path \<Rightarrow> (Path \<times> int \<times> nat) option" where
  "replaceCmd p icmd i q = do {
     cmd \<leftarrow> idx (cmds p) icmd;
     let n = Len cmd;
     tailc \<leftarrow> slice_from (cmds p) (icmd + 1);
     headc \<leftarrow> slice (cmds p) 0 icmd;
     taild \<leftarrow> slice_from (d p) (i + n);
     headd \<leftarrow> slice (d p) 0 i;
     Some (p\<lparr>cmds := headc @ (cmds q @ tailc), d := headd @ (d q @ taild)\<rparr>,
           int icmd + (int (length (cmds q)) - 1), i + length (d q))
   }"

text \<open>
  Modelled from the spec: \<^verbatim>\<open>Point.Interpolate\<close> is not in \<^verbatim>\<open>src/\<close>. Section 4.4 of the
  spec gives the control points of the elevated cubic as \<open>c1 = start + 2/3 (ctrl - start)\<close>
  and \<open>c2 = end + 2/3 (ctrl - end)\<close>, which the source computes as
  \<^verbatim>\<open>start.Interpolate(c, 2.0/3.0)\<close> and \<^verbatim>\<open>end.Interpolate(c, 2.0/3.0)\<close>.
\<close>

definition Interpolate :: "Point \<Rightarrow> Point \<Rightarrow> real \<Rightarrow> Point" where
  "Interpolate p q t = (fst p + t * (fst q - fst p), snd p + t * (snd q - snd p))"

text \<open>\<^verbatim>\<open>start = Point{p.d[i-2], p.d[i-1]}\<close>.\<close>

definition point_before :: "real list \<Rightarrow> nat \<Rightarrow> Point option" where
  "point_before ds i = (if i < 2 then None else do { a \<leftarrow> idx ds (i - 2); b \<leftarrow> idx ds (i - 1); Some (a, b) })"

text \<open>
  One iteration of the loop of \<^verbatim>\<open>FlattenBeziers\<close>, with the increment of \<open>icmd\<close>, on the
  state \<open>(p, icmd, i, start)\<close>. The cubic flattener \<^verbatim>\<open>flattenCubicBezier\<close> is not in
  \<^verbatim>\<open>src/\<close>: it is the parameter \<open>flattenCubicBezier\<close>.
\<close>

type_synonym flattener = "Point \<Rightarrow> Point \<Rightarrow> Point \<Rightarrow> Point \<Rightarrow> real \<Rightarrow> real \<Rightarrow> Path"

definition FlattenBeziers_step :: "flattener \<Rightarrow> real \<Rightarrow> Path \<times> nat \<times> nat \<times> Point \<Rightarrow> (Path \<times> nat \<times> nat \<times> Point) option" where
  "FlattenBeziers_step flattenCubicBezier tolerance st =
     (case st of (p, icmd, i, start) \<Rightarrow> do {
        cmd \<leftarrow> idx (cmds p) icmd;
        case cmd of
          QuadToCmd \<Rightarrow> do {
            cx \<leftarrow> idx (d p) i; cy \<leftarrow> idx (d p) (i + 1);
            ex \<leftarrow> idx (d p) (i + 2); ey \<leftarrow> idx (d p) (i + 3);
            let c = (cx, cy); let e = (ex, ey);
            let c1 = Interpolate start c (2 / 3);
            let c2 = Interpolate e c (2 / 3);
            let q = flattenCubicBezier start c1 c2 e 0 tolerance;
            (p, icmd, i) \<leftarrow> replaceCmd p icmd i q;
            if length (d q) = 0 then Some (p, nat (icmd + 1), i, start)
            else do { start \<leftarrow> point_before (d p) i; Some (p, nat (icmd + 1), i, start) }
          }
        | CubeToCmd \<Rightarrow> do {
            ax \<leftarrow> idx (d p) i; ay \<leftarrow> idx (d p) (i + 1);
            bx \<leftarrow> idx (d p) (i + 2); by \<leftarrow> idx (d p) (i + 3);
            ex \<leftarrow> idx (d p) (i + 4); ey \<leftarrow> idx (d p) (i + 5);
            let c1 = (ax, ay); let c2 = (bx, by); let e = (ex, ey);
            let q = flattenCubicBezier start c1 c2 e 0 tolerance;
            (p, icmd, i) \<leftarrow> replaceCmd p icmd i q;
            if length (d q) = 0 then Some (p, nat (icmd + 1), i, start)
            else do { start \<leftarrow> point_before (d p) i; Some (p, nat (icmd + 1), i, start) }
          }
        | _ \<Rightarrow> do {
            let i = i + Len cmd;
            start \<leftarrow> point_before (d p) i;
            Some (p, icmd + 1, i, start)
          }
      })"

lemma FlattenBeziers_step_measure:
  assumes "FlattenBeziers_step f tol (p, icmd, i, s) = Some (p', icmd', i', s')"
    and "icmd < length (cmds p)"
  shows "length (cmds p') - icmd' < length (cmds p) - icmd"
  using assms
  by (auto simp: FlattenBeziers_step_def replaceCmd_def idx_def slice_def slice_from_def Let_def
      split: PathCmd.splits if_splits Option.bind_splits prod.splits)

function FlattenBeziers_loop :: "flattener \<Rightarrow> real \<Rightarrow> Path \<times> nat \<times> nat \<times> Point \<Rightarrow> Path option" where
  "FlattenBeziers_loop flattenCubicBezier tolerance st =
     (if fst (snd st) < length (cmds (fst st))
      then (case FlattenBeziers_step flattenCubicBezier tolerance st of
              None \<Rightarrow> None
            | Some st' \<Rightarrow> FlattenBeziers_loop flattenCubicBezier tolerance st')
      else Some (fst st))"
  by pat_completeness auto
termination FlattenBeziers_loop
proof (relation "measure (\<lambda>(f, tol, p, icmd, i, s). length (cmds p) - icmd)")
  show "wf (measure (\<lambda>(f, tol, p, icmd, i, s). length (cmds p) - icmd))"
    by simp
next
  fix f tol and st st' :: "Path \<times> nat \<times> nat \<times> Point"
  assume "fst (snd st) < length (cmds (fst st))" "FlattenBeziers_step f tol st = Some st'"
  then show "((f, tol, st'), (f, tol, st)) \<in> measure (\<lambda>(f, tol, p, icmd, i, s). length (cmds p) - icmd)"
    using FlattenBeziers_step_measure [of f tol "fst st" "fst (snd st)" "fst (snd (snd st))" "snd (snd (snd st))"
        "fst st'" "fst (snd st')" "fst (snd (snd st'))" "snd (snd (snd st'))"]
    by (cases st, cases st') auto
qed

definition FlattenBeziers :: "flattener \<Rightarrow> Path \<Rightarrow> real \<Rightarrow> Path option" where
  "FlattenBeziers flattenCubicBezier p tolerance =
     FlattenBeziers_loop flattenCubicBezier tolerance (Copy p, 0, 0, (0, 0))"

section \<open>Shared arrays\<close>


























section \<open>Contracts of the parameters\<close>

text \<open>
  What the scenario claims need of the number scanner: applied to a non-empty run of
  ASCII digits that is followed by the end of the text, a space, a comma or a command
  letter, it returns the number the digits denote and the count of the digits.
  \<open>scan_decimal\<close> is a scanner that does so, and nothing else.
\<close>

definition isDigit :: "char \<Rightarrow> bool" where
  "isDigit c \<longleftrightarrow> 48 \<le> (of_char c :: nat) \<and> (of_char c :: nat) \<le> 57"

definition decimal :: "string \<Rightarrow> nat" where
  "decimal ds = foldl (\<lambda>a c. 10 * a + (of_char c - 48)) 0 ds"

definition ends_number :: "string \<Rightarrow> bool" where
  "ends_number rest \<longleftrightarrow> (case rest of [] \<Rightarrow> True | c # _ \<Rightarrow> c \<in> set '' ,MmZzLlHhVvCcSsQqTtAa'')"

definition reads_decimal :: "(string \<Rightarrow> real \<times> nat) \<Rightarrow> bool" where
  "reads_decimal pf \<longleftrightarrow>
     (\<forall>ds rest. ds \<noteq> [] \<and> list_all isDigit ds \<and> ends_number rest
        \<longrightarrow> pf (ds @ rest) = (real (decimal ds), length ds))"

definition scan_decimal :: "string \<Rightarrow> real \<times> nat" where
  "scan_decimal s = (let ds = takeWhile isDigit s in (real (decimal ds), length ds))"

section \<open>Invariants of the data model\<close>

text \<open>The arity invariant: the arities of the commands add up to the length of \<open>d\<close>.\<close>

definition arity :: "PathCmd list \<Rightarrow> nat" where
  "arity cs = sum_list (map Len cs)"

definition arity_ok :: "Path \<Rightarrow> bool" where
  "arity_ok p \<longleftrightarrow> arity (cmds p) = length (d p)"

text \<open>
  The start invariant, in the words of the spec: \<open>(x0, y0)\<close> is the coordinate pair of
  the last MoveTo among the commands, or \<open>(0, 0)\<close> when there is none. \<open>last_MoveTo\<close>
  walks the commands and the coordinates together.
\<close>

fun last_MoveTo :: "PathCmd list \<Rightarrow> real list \<Rightarrow> Point \<Rightarrow> Point" where
  "last_MoveTo [] ds acc = acc"
| "last_MoveTo (cmd # rest) ds acc =
     last_MoveTo rest (drop (Len cmd) ds) (if cmd = MoveToCmd then (ds ! 0, ds ! 1) else acc)"


text \<open>
  The contract of the cubic flattener (section 4.4 of the spec): it returns a path that
  consists of LineTo commands only, with two coordinates for each.
\<close>

definition lines_only :: "Path \<Rightarrow> bool" where
  "lines_only q \<longleftrightarrow> list_all (\<lambda>c. c = LineToCmd) (cmds q) \<and> length (d q) = 2 * length (cmds q)"

definition flattener_ok :: "flattener \<Rightarrow> bool" where
  "flattener_ok fl \<longleftrightarrow> (\<forall>a b c e t tol. lines_only (fl a b c e t tol))"

text \<open>A flattener that meets the contract: the chord from the start to the end point.\<close>

definition chord :: flattener where
  "chord a b c e t tol = LineTo empty_path (fst e) (snd e)"

text \<open>
  A flattener that meets the contract and keeps its control points visible: the polygon
  of the control points, three lines to \<open>c1\<close>, \<open>c2\<close> and the end point.
\<close>

definition control_polygon :: flattener where
  "control_polygon a b c e t tol =
     LineTo (LineTo (LineTo empty_path (fst b) (snd b)) (fst c) (snd c)) (fst e) (snd e)"

text \<open>
  Following the words of section 4.4 of the spec, not the source: what flattening makes
  of the commands \<open>cs\<close> on the coordinates \<open>xs\<close>, when the pen is at \<open>start\<close>. A QuadTo
  with the control point \<open>ctrl\<close> and the end point \<open>e\<close> is elevated to the cubic with
  \<open>c1 = start + 2/3 (ctrl - start)\<close> and \<open>c2 = end + 2/3 (ctrl - end)\<close> and replaced by what
  the cubic flattener returns for it; a CubeTo is replaced by what the flattener returns
  for its own control points; every other command is kept. The pen moves to the last
  point written, and stays where it is when the flattener returns nothing.
\<close>

fun flattened :: "flattener \<Rightarrow> real \<Rightarrow> PathCmd list \<Rightarrow> real list \<Rightarrow> Point \<Rightarrow> PathCmd list \<times> real list" where
  "flattened fl tolerance [] xs start = ([], [])"
| "flattened fl tolerance (cmd # rest) xs start =
     (case cmd of
        QuadToCmd \<Rightarrow>
          (let ctrl = (xs ! 0, xs ! 1); e = (xs ! 2, xs ! 3);
               c1 = (fst start + 2 / 3 * (fst ctrl - fst start), snd start + 2 / 3 * (snd ctrl - snd start));
               c2 = (fst e + 2 / 3 * (fst ctrl - fst e), snd e + 2 / 3 * (snd ctrl - snd e));
               q = fl start c1 c2 e 0 tolerance;
               start = (if d q = [] then start else (d q ! (length (d q) - 2), d q ! (length (d q) - 1)));
               (cs, ys) = flattened fl tolerance rest (drop 4 xs) start
           in (cmds q @ cs, d q @ ys))
      | CubeToCmd \<Rightarrow>
          (let c1 = (xs ! 0, xs ! 1); c2 = (xs ! 2, xs ! 3); e = (xs ! 4, xs ! 5);
               q = fl start c1 c2 e 0 tolerance;
               start = (if d q = [] then start else (d q ! (length (d q) - 2), d q ! (length (d q) - 1)));
               (cs, ys) = flattened fl tolerance rest (drop 6 xs) start
           in (cmds q @ cs, d q @ ys))
      | _ \<Rightarrow>
          (let start = (xs ! (Len cmd - 2), xs ! (Len cmd - 1));
               (cs, ys) = flattened fl tolerance rest (drop (Len cmd) xs) start
           in (cmd # cs, take (Len cmd) xs @ ys)))"

text \<open>
  The paths the public operations produce, starting from the empty path: the builders,
  the shape helpers and the operations of the path algebra. An operation that panics
  produces nothing.
\<close>

inductive produced :: "flattener \<Rightarrow> Path \<Rightarrow> bool" for fl :: flattener where
  p_empty: "produced fl empty_path"
| p_MoveTo: "produced fl p \<Longrightarrow> produced fl (MoveTo p x y)"
| p_LineTo: "produced fl p \<Longrightarrow> produced fl (LineTo p x y)"
| p_QuadTo: "produced fl p \<Longrightarrow> produced fl (QuadTo p x1 y1 x y)"
| p_CubeTo: "produced fl p \<Longrightarrow> produced fl (CubeTo p x1 y1 x2 y2 x y)"
| p_ArcTo: "produced fl p \<Longrightarrow> produced fl (ArcTo p rx ry rot large sweep x y)"
| p_Close: "produced fl p \<Longrightarrow> produced fl (Close p)"
| p_Rect: "produced fl p \<Longrightarrow> produced fl (Rect p x y w h)"
| p_Ellipse: "produced fl p \<Longrightarrow> produced fl (Ellipse p x y rx ry)"
| p_Copy: "produced fl p \<Longrightarrow> produced fl (Copy p)"
| p_Append: "produced fl p \<Longrightarrow> produced fl q \<Longrightarrow> Append p q = Some r \<Longrightarrow> produced fl r"
| p_Translate: "produced fl p \<Longrightarrow> Translate p x y = Some r \<Longrightarrow> produced fl r"
| p_Split: "produced fl p \<Longrightarrow> Split p = Some ps \<Longrightarrow> r \<in> set ps \<Longrightarrow> produced fl r"
| p_Reverse: "produced fl p \<Longrightarrow> Reverse p = Some r \<Longrightarrow> produced fl r"
| p_FlattenBeziers: "produced fl p \<Longrightarrow> FlattenBeziers fl p tolerance = Some r \<Longrightarrow> produced fl r"

text \<open>
  The states the loop of \<^verbatim>\<open>FlattenBeziers\<close> goes through on the path \<open>p\<close>: the state
  after the copy, and the state after each iteration (each splice).
\<close>

inductive FlattenBeziers_reaches :: "flattener \<Rightarrow> real \<Rightarrow> Path \<Rightarrow> Path \<times> nat \<times> nat \<times> Point \<Rightarrow> bool"
  for fl :: flattener and tolerance :: real and p :: Path where
  fr_init: "FlattenBeziers_reaches fl tolerance p (Copy p, 0, 0, (0, 0))"
| fr_step: "FlattenBeziers_reaches fl tolerance p st \<Longrightarrow> fst (snd st) < length (cmds (fst st))
     \<Longrightarrow> FlattenBeziers_step fl tolerance st = Some st'
     \<Longrightarrow> FlattenBeziers_reaches fl tolerance p st'"


text \<open>What the claim on \<^verbatim>\<open>Split\<close> says of a fragment: it is not empty, a MoveTo stands only
  at its head, and a Close only at its end.\<close>

definition fragment_ok :: "Path \<Rightarrow> bool" where
  "fragment_ok f \<longleftrightarrow> cmds f \<noteq> [] \<and> MoveToCmd \<notin> set (tl (cmds f)) \<and> CloseCmd \<notin> set (butlast (cmds f))"

text \<open>
  What \<^verbatim>\<open>Split\<close> keeps for its fragments: each is well formed and keeps the arity
  invariant, and its start cache is the last MoveTo of \<open>p\<close> up to the end of the
  fragment (which need not lie in the fragment itself).
\<close>

definition fragments_ok :: "Path list \<Rightarrow> bool" where
  "fragments_ok ps \<longleftrightarrow>
     (\<forall>f\<in>set ps. fragment_ok f \<and> arity_ok f) \<and>
     (\<forall>k<length ps. Start (ps ! k) =
        last_MoveTo (concat (map cmds (take (Suc k) ps))) (concat (map d (take (Suc k) ps))) (0, 0))"

definition split_result :: "Path \<Rightarrow> Path list \<Rightarrow> bool" where
  "split_result p qs \<longleftrightarrow> concat (map cmds qs) = cmds p \<and> concat (map d qs) = d p \<and> fragments_ok qs"



section \<open>Evaluation lemmas\<close>

lemmas builders = MoveTo_def LineTo_def QuadTo_def CubeTo_def ArcTo_def Close_def empty_path_def

lemmas parse_eval = ParseSVGPath_def ParseSVGPath_loop.simps ParseSVGPath_step_def slice_from_def idx_def
  skipCommaWhitespace_def Pos_def num_def parseNum_def builders

lemma reads_decimalD:
  "reads_decimal pf \<Longrightarrow> ds \<noteq> [] \<Longrightarrow> list_all isDigit ds \<Longrightarrow> ends_number rest
     \<Longrightarrow> pf (ds @ rest) = (real (decimal ds), length ds)"
  by (simp add: reads_decimal_def)

lemma takeWhile_digits:
  assumes "list_all isDigit ds" "ends_number rest"
  shows "takeWhile isDigit (ds @ rest) = ds"
proof -
  have "takeWhile isDigit rest = []"
    using assms(2) by (cases rest) (auto simp: ends_number_def isDigit_def)
  moreover have "\<forall>c\<in>set ds. isDigit c"
    using assms(1) by (simp add: list_all_iff)
  ultimately show ?thesis
    by simp
qed

lemma reads_decimal_scan: "reads_decimal scan_decimal"
  by (simp add: reads_decimal_def scan_decimal_def takeWhile_digits)

lemma tok0: "reads_decimal pf \<Longrightarrow> ends_number rest \<Longrightarrow> pf (CHR ''0'' # rest) = (0, 1)"
  using reads_decimalD [of pf "''0''" rest] by (simp add: isDigit_def decimal_def)

lemma tok10: "reads_decimal pf \<Longrightarrow> ends_number rest \<Longrightarrow> pf (CHR ''1'' # CHR ''0'' # rest) = (10, 2)"
  using reads_decimalD [of pf "''10''" rest] by (simp add: isDigit_def decimal_def)

lemma tok20: "reads_decimal pf \<Longrightarrow> ends_number rest \<Longrightarrow> pf (CHR ''2'' # CHR ''0'' # rest) = (20, 2)"
  using reads_decimalD [of pf "''20''" rest] by (simp add: isDigit_def decimal_def)

lemma tok30: "reads_decimal pf \<Longrightarrow> ends_number rest \<Longrightarrow> pf (CHR ''3'' # CHR ''0'' # rest) = (30, 2)"
  using reads_decimalD [of pf "''30''" rest] by (simp add: isDigit_def decimal_def)

lemma tok40: "reads_decimal pf \<Longrightarrow> ends_number rest \<Longrightarrow> pf (CHR ''4'' # CHR ''0'' # rest) = (40, 2)"
  using reads_decimalD [of pf "''40''" rest] by (simp add: isDigit_def decimal_def)

lemma parse_triangle:
  assumes "reads_decimal pf"
  shows "ParseSVGPath pf ''M0 0L10 0L10 10z'' =
     Some (Some \<lparr>cmds = [MoveToCmd, LineToCmd, LineToCmd, CloseCmd],
                 d = [0, 0, 10, 0, 10, 10, 0, 0], x0 = 0, y0 = 0\<rparr>)"
  by (simp add: parse_eval tok0 [OF assms] tok10 [OF assms] ends_number_def)

lemma reverse_triangle:
  "Reverse \<lparr>cmds = [MoveToCmd, LineToCmd, LineToCmd, CloseCmd],
            d = [0, 0, 10, 0, 10, 10, 0, 0], x0 = 0, y0 = 0\<rparr>
    = Some \<lparr>cmds = [LineToCmd, LineToCmd, CloseCmd], d = [10, 10, 10, 0, 0, 0], x0 = 0, y0 = 0\<rparr>"
  by (simp add: Reverse_def prevEnd_def Equal_def Epsilon_def builders eval_nat_numeral)

lemma svg_reversed_triangle:
  assumes "ftos 0 = ''0''" "ftos 10 = ''10''"
  shows "ToSVGPath ftos \<lparr>cmds = [LineToCmd, LineToCmd, CloseCmd], d = [10, 10, 10, 0, 0, 0], x0 = 0, y0 = 0\<rparr>
    = Some ''M0 0L10 10V0z''"
  by (simp add: ToSVGPath_def idx_def Equal_def Epsilon_def assms)

lemma step_lone_digit:
  "ParseSVGPath_step pf ''1'' (empty_path, CHR 0x00, 0, 0, 0) = Some (empty_path, CHR 0x00, 0, 0, 0)"
  by (simp add: ParseSVGPath_step_def slice_from_def idx_def skipCommaWhitespace_def Pos_def empty_path_def)

text \<open>
  On the text \<open>1\<close> an iteration leaves the state as it found it: the byte is below \<open>A\<close>,
  the command is the zero byte, no case of the switch applies and \<open>i\<close> stays \<open>0\<close>.
  So no run of the loop returns.
\<close>

lemma loop_lone_digit: "ParseSVGPath_loop pf ''1'' (empty_path, CHR 0x00, 0, 0, 0) = None"
proof (rule ccontr)
  assume "ParseSVGPath_loop pf ''1'' (empty_path, CHR 0x00, 0, 0, 0) \<noteq> None"
  then obtain r where r: "ParseSVGPath_loop pf ''1'' (empty_path, CHR 0x00, 0, 0, 0) = Some r"
    by auto
  have "\<not> (pf = pf \<and> ''1'' = ''1''
      \<and> (empty_path, CHR 0x00, 0::real, 0::real, 0::nat) = (empty_path, CHR 0x00, 0, 0, 0))"
  proof (rule ParseSVGPath_loop.raw_induct
      [where P = "\<lambda>pf' path st y. \<not> (pf' = pf \<and> path = ''1'' \<and> st = (empty_path, CHR 0x00, 0, 0, 0))",
        OF _ r])
    fix loop pf' path st y
    assume IH: "\<And>pf' path st y. loop pf' path st = Some y
        \<Longrightarrow> \<not> (pf' = pf \<and> path = ''1'' \<and> st = (empty_path, CHR 0x00, 0, 0, 0))"
      and run: "(if snd (snd (snd (snd st))) < length path
         then case ParseSVGPath_step pf' path st of None \<Rightarrow> Some None | Some st' \<Rightarrow> loop pf' path st'
         else Some (Some (fst st))) = Some y"
    show "\<not> (pf' = pf \<and> path = ''1'' \<and> st = (empty_path, CHR 0x00, 0, 0, 0))"
    proof
      assume eq: "pf' = pf \<and> path = ''1'' \<and> st = (empty_path, CHR 0x00, 0, 0, 0)"
      with run have "loop pf ''1'' (empty_path, CHR 0x00, 0, 0, 0) = Some y"
        by (simp add: step_lone_digit)
      from IH [OF this] show False by simp
    qed
  qed
  then show False by simp
qed

lemma parse_trailing_space:
  assumes "reads_decimal pf"
  shows "ParseSVGPath pf ''M0 0 '' = Some None"
  by (simp add: parse_eval tok0 [OF assms] ends_number_def)

section \<open>Scenarios\<close>

text \<open>
  C1 (as amended). Parsing \<open>M0 0L10 0L10 10z\<close>, reversing the path and serializing it
  gives the text \<open>M0 0L10 10V0z\<close>: the reversed path ends where the original started,
  at the origin, so it opens with no MoveTo of its own and the serializer writes the
  implicit \<open>M0 0\<close>; the second edge is vertical and is written as \<open>V0\<close>. This holds for
  every number scanner that reads decimal tokens and every number formatter that writes
  \<open>0\<close> and \<open>10\<close> as such.
\<close>

theorem C1_parse_reverse_serialize:
  assumes "reads_decimal pf" and "ftos 0 = ''0''" and "ftos 10 = ''10''"
  shows "\<exists>p r. ParseSVGPath pf ''M0 0L10 0L10 10z'' = Some (Some p) \<and> Reverse p = Some r
           \<and> ToSVGPath ftos r = Some ''M0 0L10 10V0z''"
  using parse_triangle [OF assms(1)] reverse_triangle svg_reversed_triangle [OF assms(2,3)]
  by simp

theorem C1_parse_reverse_serialize_witness:
  "reads_decimal scan_decimal
   \<and> (\<exists>p r. ParseSVGPath scan_decimal ''M0 0L10 0L10 10z'' = Some (Some p) \<and> Reverse p = Some r
        \<and> ToSVGPath (\<lambda>x. if x = 0 then ''0'' else ''10'') r = Some ''M0 0L10 10V0z'')"
  using C1_parse_reverse_serialize [of scan_decimal "\<lambda>x. if x = 0 then ''0'' else ''10''"]
    reads_decimal_scan
  by simp

text \<open>
  The claim C1 as it is stated, with the text \<open>M10 10L10 0L0 0z\<close>, fails.
\<close>

theorem C1_stated_text_counterexample:
  "\<not> (\<forall>pf ftos. reads_decimal pf \<longrightarrow> ftos 0 = ''0'' \<longrightarrow> ftos 10 = ''10'' \<longrightarrow>
        (\<exists>p r. ParseSVGPath pf ''M0 0L10 0L10 10z'' = Some (Some p) \<and> Reverse p = Some r
           \<and> ToSVGPath ftos r = Some ''M10 10L10 0L0 0z''))"
proof
  assume all: "\<forall>pf ftos. reads_decimal pf \<longrightarrow> ftos 0 = ''0'' \<longrightarrow> ftos 10 = ''10'' \<longrightarrow>
        (\<exists>p r. ParseSVGPath pf ''M0 0L10 0L10 10z'' = Some (Some p) \<and> Reverse p = Some r
           \<and> ToSVGPath ftos r = Some ''M10 10L10 0L0 0z'')"
  define fmt :: "real \<Rightarrow> string" where "fmt = (\<lambda>x. if x = 0 then ''0'' else ''10'')"
  have fmt: "fmt 0 = ''0''" "fmt 10 = ''10''"
    by (simp_all add: fmt_def)
  from all reads_decimal_scan fmt obtain p r
    where "ParseSVGPath scan_decimal ''M0 0L10 0L10 10z'' = Some (Some p)" "Reverse p = Some r"
      "ToSVGPath fmt r = Some ''M10 10L10 0L0 0z''"
    by blast
  with parse_triangle [OF reads_decimal_scan] reverse_triangle svg_reversed_triangle [OF fmt]
  show False by simp
qed

text \<open>
  C7. \<open>Rect(0,0,10,20)\<close> on the empty path serializes to \<open>M0 0H10V20H0z\<close>, for every
  number formatter that writes \<open>0\<close>, \<open>10\<close> and \<open>20\<close> as such.
\<close>

theorem C7_rect_serializes:
  assumes "ftos 0 = ''0''" and "ftos 10 = ''10''" and "ftos 20 = ''20''"
  shows "ToSVGPath ftos (Rect empty_path 0 0 10 20) = Some ''M0 0H10V20H0z''"
  by (simp add: ToSVGPath_def Rect_def builders idx_def Equal_def Epsilon_def assms)

theorem C7_rect_serializes_witness:
  "ToSVGPath (\<lambda>x. if x = 0 then ''0'' else if x = 10 then ''10'' else ''20'') (Rect empty_path 0 0 10 20)
     = Some ''M0 0H10V20H0z''"
  using C7_rect_serializes [of "\<lambda>x. if x = 0 then ''0'' else if x = 10 then ''10'' else ''20''"]
  by simp

text \<open>
  C8. Parsing \<open>C10 10 20 10 20 20 S30 30 40 20\<close> gives two CubeTo commands, and the
  first control point of the second is \<open>(2*20-20, 2*20-10) = (20, 30)\<close>, the reflection
  of the last control point \<open>(20, 10)\<close> of the first curve through the current point
  \<open>(20, 20)\<close>.
\<close>

theorem C8_shorthand_reflection:
  assumes "reads_decimal pf"
  shows "\<exists>p. ParseSVGPath pf ''C10 10 20 10 20 20 S30 30 40 20'' = Some (Some p)
           \<and> cmds p = [CubeToCmd, CubeToCmd]
           \<and> d p = [10, 10, 20, 10, 20, 20, 20, 30, 30, 30, 40, 20]
           \<and> (d p ! 6, d p ! 7) = (2 * 20 - 20, 2 * 20 - 10)"
  by (simp add: parse_eval tok10 [OF assms] tok20 [OF assms] tok30 [OF assms] tok40 [OF assms]
      ends_number_def)

theorem C8_shorthand_reflection_witness:
  "reads_decimal scan_decimal
   \<and> (\<exists>p. ParseSVGPath scan_decimal ''C10 10 20 10 20 20 S30 30 40 20'' = Some (Some p)
           \<and> cmds p = [CubeToCmd, CubeToCmd]
           \<and> d p = [10, 10, 20, 10, 20, 20, 20, 30, 30, 30, 40, 20]
           \<and> (d p ! 6, d p ! 7) = (2 * 20 - 20, 2 * 20 - 10))"
  using C8_shorthand_reflection [OF reads_decimal_scan] reads_decimal_scan
  by simp

text \<open>
  C10. \<open>Reverse\<close> of a path with no commands is the empty path: no commands, no
  coordinates, start cache \<open>(0, 0)\<close>.
\<close>

theorem C10_reverse_empty:
  assumes "cmds p = []"
  shows "\<exists>r. Reverse p = Some r \<and> cmds r = [] \<and> d r = [] \<and> x0 r = 0 \<and> y0 r = 0"
  using assms by (simp add: Reverse_def empty_path_def)

theorem C10_reverse_empty_witness:
  "cmds empty_path = []
   \<and> (\<exists>r. Reverse empty_path = Some r \<and> cmds r = [] \<and> d r = [] \<and> x0 r = 0 \<and> y0 r = 0)"
  using C10_reverse_empty [of empty_path] by (simp add: empty_path_def)

section \<open>Defects\<close>

text \<open>
  C3. The parser does not return on every text, and it can panic. On \<open>z \<close> (a close
  command and a trailing space) the loop is entered with one byte left, the space is
  skipped, and the read \<^verbatim>\<open>path[i]\<close> that follows is out of range: the parser panics.
  On \<open>1\<close> the byte is below \<open>A\<close>, the command is the zero byte, no iteration consumes
  a byte, and the loop never ends. Both hold for every number scanner.
\<close>

theorem C3_parser_panics_or_hangs:
  "ParseSVGPath pf ''z '' = Some None \<and> ParseSVGPath pf ''1'' = None"
  by (simp add: loop_lone_digit ParseSVGPath_def [of pf "''1''"])
     (simp add: parse_eval)

text \<open>
  C5. The path \<open>M1 1 L0 0 M5 5 L6 6\<close> has two subpaths and no zero-length edge. In
  \<open>Reverse\<close> the MoveTo to \<open>(5, 5)\<close> finds the preceding end point \<open>(0, 0)\<close> and emits
  no MoveTo, so the reversed path is \<open>M6 6 L5 5 L1 1\<close>: one subpath, with an edge from
  \<open>(5, 5)\<close> to \<open>(1, 1)\<close> that the original does not have. Reversing again gives
  \<open>M1 1 L5 5 L6 6\<close>, not the original.
\<close>

theorem C5_reverse_twice_differs:
  "Reverse (LineTo (MoveTo (LineTo (MoveTo empty_path 1 1) 0 0) 5 5) 6 6)
     = Some \<lparr>cmds = [MoveToCmd, LineToCmd, LineToCmd], d = [6, 6, 5, 5, 1, 1], x0 = 6, y0 = 6\<rparr>
   \<and> Reverse \<lparr>cmds = [MoveToCmd, LineToCmd, LineToCmd], d = [6, 6, 5, 5, 1, 1], x0 = 6, y0 = 6\<rparr>
     = Some \<lparr>cmds = [MoveToCmd, LineToCmd, LineToCmd], d = [1, 1, 5, 5, 6, 6], x0 = 1, y0 = 1\<rparr>"
  by (simp add: Reverse_def prevEnd_def Equal_def Epsilon_def builders eval_nat_numeral)

theorem C5_reverse_twice_differs_witness:
  "\<exists>r rr. Reverse (LineTo (MoveTo (LineTo (MoveTo empty_path 1 1) 0 0) 5 5) 6 6) = Some r
     \<and> Reverse r = Some rr
     \<and> cmds rr \<noteq> cmds (LineTo (MoveTo (LineTo (MoveTo empty_path 1 1) 0 0) 5 5) 6 6)
     \<and> d rr \<noteq> d (LineTo (MoveTo (LineTo (MoveTo empty_path 1 1) 0 0) 5 5) 6 6)"
  using C5_reverse_twice_differs by (simp add: builders)

section \<open>The arity invariant\<close>

lemma arity_append [simp]: "arity (a @ b) = arity a + arity b"
  by (simp add: arity_def)

lemma arity_Nil [simp]: "arity [] = 0"
  by (simp add: arity_def)

lemma arity_Cons [simp]: "arity (c # cs) = Len c + arity cs"
  by (simp add: arity_def)

lemma Len_ge2: "2 \<le> Len c"
  by (cases c) simp_all

lemma arity_eq_0 [simp]: "arity cs = 0 \<longleftrightarrow> cs = []"
proof (cases cs)
  case Nil
  then show ?thesis by simp
next
  case (Cons c cs')
  with Len_ge2 [of c] show ?thesis by simp
qed

lemma arity_ok_builders:
  "arity_ok empty_path"
  "arity_ok p \<Longrightarrow> arity_ok (MoveTo p x y)"
  "arity_ok p \<Longrightarrow> arity_ok (LineTo p x y)"
  "arity_ok p \<Longrightarrow> arity_ok (QuadTo p x1 y1 x y)"
  "arity_ok p \<Longrightarrow> arity_ok (CubeTo p x1 y1 x2 y2 x y)"
  "arity_ok p \<Longrightarrow> arity_ok (ArcTo p rx ry rot large sweep x y)"
  "arity_ok p \<Longrightarrow> arity_ok (Close p)"
  by (simp_all add: arity_ok_def builders Let_def)

lemma arity_ok_shapes:
  "arity_ok p \<Longrightarrow> arity_ok (Rect p x y w h)"
  "arity_ok p \<Longrightarrow> arity_ok (Ellipse p x y rx ry)"
  "arity_ok p \<Longrightarrow> arity_ok (Copy p)"
  by (simp_all add: Rect_def Ellipse_def Copy_def arity_ok_builders) (simp add: arity_ok_def)

lemma arity_ok_Append:
  assumes "arity_ok p" "arity_ok q" "Append p q = Some r"
  shows "arity_ok r"
proof (cases "cmds q")
  case Nil
  with assms show ?thesis by (simp add: Append_def)
next
  case (Cons c cs)
  with assms show ?thesis
    by (auto simp: Append_def arity_ok_def idx_def Let_def split: if_splits Option.bind_splits)
qed

lemma add_at_length: "add_at ds k v = Some ds' \<Longrightarrow> length ds' = length ds"
  by (auto simp: add_at_def split: if_splits)

lemma Translate_loop_length: "Translate_loop cs ds i x y = Some ds' \<Longrightarrow> length ds' = length ds"
proof (induction cs arbitrary: ds i)
  case Nil
  then show ?case by simp
next
  case (Cons c cs)
  then show ?case
    by (cases c) (auto split: Option.bind_splits dest!: add_at_length)
qed

lemma arity_ok_Translate:
  assumes "arity_ok p" "Translate p x y = Some r"
  shows "arity_ok r"
proof -
  define p' where "p' = (if length (cmds (Copy p)) > 0 \<and> cmds (Copy p) ! 0 \<noteq> MoveToCmd
               then (Copy p)\<lparr>cmds := [MoveToCmd] @ cmds (Copy p), d := [0, 0] @ d (Copy p)\<rparr> else Copy p)"
  have ok: "arity_ok p'"
    using assms(1) by (simp add: p'_def Copy_def arity_ok_def)
  from assms(2) obtain ds where ds: "Translate_loop (cmds p') (d p') 0 x y = Some ds" and r: "r = p'\<lparr>d := ds\<rparr>"
    unfolding Translate_def Let_def p'_def [symmetric] by (auto split: Option.bind_splits)
  from Translate_loop_length [OF ds] ok r show ?thesis
    by (simp add: arity_ok_def)
qed

lemma Reverse_loop_builds:
  assumes mv: "\<And>q x y. P q \<Longrightarrow> P (MoveTo q x y)"
    and ln: "\<And>q x y. P q \<Longrightarrow> P (LineTo q x y)"
    and qd: "\<And>q x1 y1 x y. P q \<Longrightarrow> P (QuadTo q x1 y1 x y)"
    and cb: "\<And>q x1 y1 x2 y2 x y. P q \<Longrightarrow> P (CubeTo q x1 y1 x2 y2 x y)"
    and ar: "\<And>q rx ry rot large sweep x y. P q \<Longrightarrow> P (ArcTo q rx ry rot large sweep x y)"
    and cl: "\<And>q. P q \<Longrightarrow> P (Close q)"
  shows "P ip \<Longrightarrow> Reverse_loop p n ip e s c i = Some r \<Longrightarrow> P r"
proof (induction n arbitrary: ip e s c i)
  case 0
  then show ?case
    by (cases e; cases s) (auto intro: cl split: if_splits)
next
  case (Suc n)
  obtain xe ye xs ys where es: "e = (xe, ye)" "s = (xs, ys)"
    by (cases e; cases s) auto
  show ?case
  proof (cases "cmds p ! n")
    case MoveToCmd
    with Suc.prems es show ?thesis
      by (auto simp: Let_def split: if_splits prod.splits elim!: Suc.IH [rotated] intro: mv cl)
  next
    case LineToCmd
    with Suc.prems es show ?thesis
      by (auto simp: Let_def split: if_splits prod.splits elim!: Suc.IH [rotated] intro: ln cl)
  next
    case QuadToCmd
    with Suc.prems es show ?thesis
      by (auto simp: Let_def split: if_splits prod.splits elim!: Suc.IH [rotated] intro: qd)
  next
    case CubeToCmd
    with Suc.prems es show ?thesis
      by (auto simp: Let_def split: if_splits prod.splits elim!: Suc.IH [rotated] intro: cb)
  next
    case ArcToCmd
    with Suc.prems es show ?thesis
      by (auto simp: Let_def split: if_splits prod.splits elim!: Suc.IH [rotated] intro: ar)
  next
    case CloseCmd
    with Suc.prems es show ?thesis
      by (auto simp: Let_def split: if_splits prod.splits elim!: Suc.IH [rotated] intro: ln)
  qed
qed


lemma lines_only_arity: "list_all (\<lambda>c. c = LineToCmd) cs \<Longrightarrow> arity cs = 2 * length cs"
  by (induction cs) auto

lemma lines_only_arity_ok: "lines_only q \<Longrightarrow> arity_ok q"
  by (simp add: lines_only_def arity_ok_def lines_only_arity)

lemma arity_split_at:
  assumes "icmd < length cs"
  shows "arity cs = arity (take icmd cs) + Len (cs ! icmd) + arity (drop (Suc icmd) cs)"
proof -
  have "cs = take icmd cs @ cs ! icmd # drop (Suc icmd) cs"
    using assms by (simp add: id_take_nth_drop)
  then have "arity cs = arity (take icmd cs @ cs ! icmd # drop (Suc icmd) cs)"
    by simp
  then show ?thesis
    by (simp del: append_take_drop_id)
qed

lemma replaceCmd_arity_ok:
  assumes "arity_ok p" "arity_ok q" "replaceCmd p icmd i q = Some (p', icmd', i')"
  shows "arity_ok p'"
proof -
  from assms(3) have lt: "icmd < length (cmds p)" and le: "i + Len (cmds p ! icmd) \<le> length (d p)"
    and p': "p' = p\<lparr>cmds := take icmd (cmds p) @ (cmds q @ drop (Suc icmd) (cmds p)),
                    d := take i (d p) @ (d q @ drop (i + Len (cmds p ! icmd)) (d p))\<rparr>"
    by (auto simp: replaceCmd_def idx_def slice_def slice_from_def Let_def split: if_splits Option.bind_splits)
  from arity_split_at [OF lt] assms(1,2) le show ?thesis
    by (simp add: p' arity_ok_def)
qed

lemma FlattenBeziers_step_cases:
  assumes "FlattenBeziers_step fl tol (p, icmd, i, start) = Some st'"
    and Q: "\<And>a b c e. Q (fl a b c e 0 tol)"
  shows "fst st' = p \<or>
    (\<exists>q icmd2 i2. Q q \<and> icmd < length (cmds p) \<and> cmds p ! icmd \<in> {QuadToCmd, CubeToCmd}
       \<and> replaceCmd p icmd i q = Some (fst st', icmd2, i2))"
proof -
  from assms(1) obtain cmd where cmd: "idx (cmds p) icmd = Some cmd"
    by (auto simp: FlattenBeziers_step_def split: Option.bind_splits)
  then have lt: "icmd < length (cmds p)" and nth: "cmds p ! icmd = cmd"
    by (auto simp: idx_def split: if_splits)
  have rep: ?thesis
    if "Q q" "replaceCmd p icmd i q = Some (p2, icmd2, i2)" "fst st' = p2"
      "cmd = QuadToCmd \<or> cmd = CubeToCmd" for q p2 icmd2 i2
    using that lt nth by blast
  show ?thesis
  proof (cases cmd)
    case QuadToCmd
    with assms(1) cmd have "\<exists>q p2 icmd2 i2. Q q \<and> replaceCmd p icmd i q = Some (p2, icmd2, i2) \<and> fst st' = p2"
      by (auto simp: FlattenBeziers_step_def Let_def split: Option.bind_splits if_splits intro!: exI Q)
    with QuadToCmd show ?thesis
      using rep by blast
  next
    case CubeToCmd
    with assms(1) cmd have "\<exists>q p2 icmd2 i2. Q q \<and> replaceCmd p icmd i q = Some (p2, icmd2, i2) \<and> fst st' = p2"
      by (auto simp: FlattenBeziers_step_def Let_def split: Option.bind_splits if_splits intro!: exI Q)
    with CubeToCmd show ?thesis
      using rep by blast
  qed (use assms(1) cmd in \<open>auto simp: FlattenBeziers_step_def Let_def split: Option.bind_splits\<close>)
qed

lemma FlattenBeziers_step_arity_ok:
  assumes "flattener_ok fl" "arity_ok (fst st)" "FlattenBeziers_step fl tol st = Some st'"
  shows "arity_ok (fst st')"
proof -
  obtain p icmd i start where st: "st = (p, icmd, i, start)"
    by (cases st) auto
  have q: "arity_ok (fl a b c e 0 tol)" for a b c e
    using assms(1) unfolding flattener_ok_def by (blast intro: lines_only_arity_ok)
  from FlattenBeziers_step_cases [OF assms(3) [unfolded st], of arity_ok, OF q] assms(2) show ?thesis
    unfolding st by (auto dest: replaceCmd_arity_ok [rotated 2])
qed

lemma FlattenBeziers_loop_keeps:
  assumes step: "\<And>st st'. P st \<Longrightarrow> FlattenBeziers_step fl tol st = Some st' \<Longrightarrow> P st'"
  shows "P st \<Longrightarrow> FlattenBeziers_loop fl tol st = Some r \<Longrightarrow> \<exists>st'. P st' \<and> fst st' = r"
  using step
proof (induction fl tol st rule: FlattenBeziers_loop.induct)
  case (1 fl tol st)
  show ?case
  proof (cases "fst (snd st) < length (cmds (fst st))")
    case True
    with "1.prems"(2) obtain st' where st': "FlattenBeziers_step fl tol st = Some st'"
      and run: "FlattenBeziers_loop fl tol st' = Some r"
      by (subst (asm) FlattenBeziers_loop.simps) (auto split: option.splits)
    from "1.prems"(3) [OF "1.prems"(1) st'] have "P st'" .
    from "1.IH" [OF True st' this run "1.prems"(3)] show ?thesis .
  next
    case False
    with "1.prems"(2) have "r = fst st"
      by (subst (asm) FlattenBeziers_loop.simps) simp
    with "1.prems"(1) show ?thesis
      by blast
  qed
qed


section \<open>Split\<close>

lemma slice_mid: "slice (a @ b @ c) (length a) (length a + length b) = Some b"
  by (simp add: slice_def)

lemma fragment_mid:
  assumes "cmds p = dn @ cur @ rest" "d p = ddn @ dcur @ drest"
  shows "fragment p (length dn) (length dn + length cur) (length ddn) (length ddn + length dcur) sx sy
    = Some \<lparr>cmds = cur, d = dcur, x0 = sx, y0 = sy\<rparr>"
  by (simp add: fragment_def assms slice_mid)

text \<open>One iteration of the loop of Split, for every command alike.\<close>

lemma Split_loop_Cons:
  "Split_loop p (cmd # rest) ps closed' i j icmd jcmd sx sy = do {
     (ps, icmd, i, closed') \<leftarrow>
       (if j > i \<and> cmd = MoveToCmd \<or> closed'
        then do { f \<leftarrow> fragment p icmd jcmd i j sx sy; Some (ps @ [f], jcmd, j, False) }
        else Some (ps, icmd, i, closed'));
     (sx, sy) \<leftarrow> (if cmd = MoveToCmd then do { a \<leftarrow> idx (d p) j; b \<leftarrow> idx (d p) (j + 1); Some (a, b) }
                   else Some (sx, sy));
     Split_loop p rest ps (cmd = CloseCmd \<or> closed') i (j + Len cmd) icmd (jcmd + 1) sx sy
   }"
  by (cases cmd) (simp_all split: Option.bind_split prod.split)


lemma last_MoveTo_append:
  "length da = arity a \<Longrightarrow> last_MoveTo (a @ b) (da @ db) acc = last_MoveTo b db (last_MoveTo a da acc)"
proof (induction a arbitrary: da acc)
  case Nil
  then show ?case by simp
next
  case (Cons c a)
  from Cons.prems Len_ge2 [of c] have len: "Len c \<le> length da" "2 \<le> length da"
    by simp_all
  from Cons.prems have "length (drop (Len c) da) = arity a"
    by simp
  moreover from len obtain a0 a1 da' where "da = a0 # a1 # da'"
    by (cases da; cases "tl da") auto
  ultimately show ?case
    using Cons.IH [of "drop (Len c) da"] len by (cases c) simp_all
qed

lemma arity_pos: "0 < arity cs \<longleftrightarrow> cs \<noteq> []"
proof (cases cs)
  case Nil
  then show ?thesis by simp
next
  case (Cons c cs')
  with Len_ge2 [of c] show ?thesis by simp
qed

lemma fragments_ok_Nil: "fragments_ok []"
  by (simp add: fragments_ok_def)

lemma fragments_ok_snoc:
  assumes "fragments_ok ps" "fragment_ok f" "arity_ok f"
    "Start f = last_MoveTo (concat (map cmds ps) @ cmds f) (concat (map d ps) @ d f) (0, 0)"
  shows "fragments_ok (ps @ [f])"
  unfolding fragments_ok_def
proof (intro conjI allI impI ballI)
  fix g assume "g \<in> set (ps @ [f])"
  with assms(1-3) show "fragment_ok g" "arity_ok g"
    by (auto simp: fragments_ok_def)
next
  fix k assume k: "k < length (ps @ [f])"
  show "Start ((ps @ [f]) ! k) =
        last_MoveTo (concat (map cmds (take (Suc k) (ps @ [f])))) (concat (map d (take (Suc k) (ps @ [f])))) (0, 0)"
  proof (cases "k < length ps")
    case True
    with assms(1) show ?thesis
      by (simp add: fragments_ok_def nth_append)
  next
    case False
    with k have "k = length ps" by simp
    with assms(4) show ?thesis by simp
  qed
qed


lemma Split_loop_inv:
  assumes "cmds p = dn @ cur @ rest" and "d p = ddn @ dcur @ drest"
    and "length ddn = arity dn" and "length dcur = arity cur" and "length drest = arity rest"
    and "concat (map cmds ps) = dn" and "concat (map d ps) = ddn" and "fragments_ok ps"
    and "MoveToCmd \<notin> set (tl cur)" and "CloseCmd \<notin> set (butlast cur)"
    and "closed' \<longleftrightarrow> cur \<noteq> [] \<and> last cur = CloseCmd"
    and "(sx, sy) = last_MoveTo (dn @ cur) (ddn @ dcur) (0, 0)"
  shows "\<exists>qs. Split_loop p rest ps closed' (length ddn) (length ddn + length dcur)
                 (length dn) (length dn + length cur) sx sy = Some qs \<and> split_result p qs"
  using assms
proof (induction rest arbitrary: dn cur ddn dcur drest ps closed' sx sy)
  case Nil
  then have drest: "drest = []" by simp
  show ?case
  proof (cases "cur = []")
    case True
    with Nil have "dcur = []" by simp
    with True Nil drest show ?thesis
      by (simp add: split_result_def)
  next
    case False
    with Nil.prems(4) have pos: "0 < length dcur"
      by (simp add: arity_pos)
    let ?f = "\<lparr>cmds = cur, d = dcur, x0 = sx, y0 = sy\<rparr>"
    have "fragment_ok ?f" "arity_ok ?f"
      using False Nil.prems(4,9,10) by (simp_all add: fragment_ok_def arity_ok_def)
    moreover have "Start ?f = last_MoveTo (concat (map cmds ps) @ cmds ?f) (concat (map d ps) @ d ?f) (0, 0)"
      using Nil.prems(6,7,12) by (simp add: Start_def)
    ultimately have "fragments_ok (ps @ [?f])"
      using fragments_ok_snoc [OF Nil.prems(8)] by blast
    with pos fragment_mid [OF Nil.prems(1,2)] Nil.prems(1,2,6,7) drest show ?thesis
      by (simp add: split_result_def)
  qed
next
  case (Cons cmd rest)
  define dc where "dc = take (Len cmd) drest"
  define drest' where "drest' = drop (Len cmd) drest"
  from Cons.prems(5) have dr: "drest = dc @ drest'" and ldc: "length dc = Len cmd"
    and ldr: "length drest' = arity rest"
    by (simp_all add: dc_def drest'_def)
  let ?j = "length ddn + length dcur"
  let ?boundary = "?j > length ddn \<and> cmd = MoveToCmd \<or> closed'"
  have cur_pos: "0 < length dcur \<longleftrightarrow> cur \<noteq> []"
    using Cons.prems(4) by (simp add: arity_pos)
  \<comment> \<open>the state after the boundary test\<close>
  obtain dn1 cur1 ddn1 dcur1 ps1 closed1 where
    bnd: "(if ?boundary
           then do { f \<leftarrow> fragment p (length dn) (length dn + length cur) (length ddn) ?j sx sy;
                     Some (ps @ [f], length dn + length cur, ?j, False) }
           else Some (ps, length dn, length ddn, closed'))
          = Some (ps1, length dn1, length ddn1, closed1)"
    and inv1: "cmds p = dn1 @ cur1 @ cmd # rest" "d p = ddn1 @ dcur1 @ dc @ drest'"
      "length ddn1 = arity dn1" "length dcur1 = arity cur1"
      "concat (map cmds ps1) = dn1" "concat (map d ps1) = ddn1" "fragments_ok ps1"
      "(sx, sy) = last_MoveTo (dn1 @ cur1) (ddn1 @ dcur1) (0, 0)"
    and j1: "length ddn1 + length dcur1 = ?j" "length dn1 + length cur1 = length dn + length cur"
    and cur1: "MoveToCmd \<notin> set (tl cur1)" "CloseCmd \<notin> set cur1" "cmd = MoveToCmd \<longrightarrow> cur1 = []"
      "\<not> closed1"
  proof (cases ?boundary)
    case True
    then have ne: "cur \<noteq> []"
      using cur_pos Cons.prems(11) by auto
    let ?f = "\<lparr>cmds = cur, d = dcur, x0 = sx, y0 = sy\<rparr>"
    have "fragment_ok ?f" "arity_ok ?f"
      using ne Cons.prems(4,9,10) by (simp_all add: fragment_ok_def arity_ok_def)
    moreover have "Start ?f = last_MoveTo (concat (map cmds ps) @ cmds ?f) (concat (map d ps) @ d ?f) (0, 0)"
      using Cons.prems(6,7,12) by (simp add: Start_def)
    ultimately have fo: "fragments_ok (ps @ [?f])"
      using fragments_ok_snoc [OF Cons.prems(8)] by blast
    show ?thesis
    proof (rule that [of "ps @ [?f]" "dn @ cur" "ddn @ dcur" False "[]" "[]"])
      show "(if ?boundary
           then do { f \<leftarrow> fragment p (length dn) (length dn + length cur) (length ddn) ?j sx sy;
                     Some (ps @ [f], length dn + length cur, ?j, False) }
           else Some (ps, length dn, length ddn, closed'))
          = Some (ps @ [?f], length (dn @ cur), length (ddn @ dcur), False)"
        using True fragment_mid [OF Cons.prems(1,2)] by simp
    qed (use Cons.prems dr fo in \<open>simp_all\<close>)
  next
    case False
    then have nc: "\<not> closed'" and mv: "cmd = MoveToCmd \<longrightarrow> cur = []"
      using cur_pos by auto
    from nc Cons.prems(10,11) have "CloseCmd \<notin> set cur"
      by (cases cur rule: rev_cases) auto
    then have cc: "CloseCmd \<notin> set cur" .
    show ?thesis
    proof (rule that [of ps dn ddn closed' cur dcur])
      show "(if ?boundary
           then do { f \<leftarrow> fragment p (length dn) (length dn + length cur) (length ddn) ?j sx sy;
                     Some (ps @ [f], length dn + length cur, ?j, False) }
           else Some (ps, length dn, length ddn, closed'))
          = Some (ps, length dn, length ddn, closed')"
        using False by auto
    qed (use Cons.prems dr nc mv cc in \<open>simp_all\<close>)
  qed
  \<comment> \<open>the command itself\<close>
  define sx' where "sx' = (if cmd = MoveToCmd then dc ! 0 else sx)"
  define sy' where "sy' = (if cmd = MoveToCmd then dc ! 1 else sy)"
  have two: "2 \<le> length dc"
    using ldc Len_ge2 [of cmd] by simp
  have rd: "(if cmd = MoveToCmd then do { a \<leftarrow> idx (d p) ?j; b \<leftarrow> idx (d p) (?j + 1); Some (a, b) }
             else Some (sx, sy)) = Some (sx', sy')"
  proof -
    have dp: "d p = (ddn1 @ dcur1) @ dc @ drest'"
      using inv1(2) by simp
    have j: "?j = length (ddn1 @ dcur1)"
      using j1(1) by simp
    have "d p ! ?j = dc ! 0" "d p ! (?j + 1) = dc ! 1" "?j + 1 < length (d p)"
      unfolding dp j using two by (auto simp: nth_append simp del: append_assoc)
    then show ?thesis
      by (simp add: idx_def sx'_def sy'_def)
  qed
  have s': "(sx', sy') = last_MoveTo (dn1 @ cur1 @ [cmd]) (ddn1 @ dcur1 @ dc) (0, 0)"
  proof -
    have "last_MoveTo ((dn1 @ cur1) @ [cmd]) ((ddn1 @ dcur1) @ dc) (0, 0)
        = last_MoveTo [cmd] dc (last_MoveTo (dn1 @ cur1) (ddn1 @ dcur1) (0, 0))"
      by (rule last_MoveTo_append) (simp add: inv1(3,4))
    then show ?thesis
      using inv1(8) [symmetric] by (simp add: sx'_def sy'_def)
  qed
  have run: "\<exists>qs. Split_loop p rest ps1 (cmd = CloseCmd \<or> closed1) (length ddn1) (length ddn1 + length (dcur1 @ dc))
                 (length dn1) (length dn1 + length (cur1 @ [cmd])) sx' sy' = Some qs \<and> split_result p qs"
  proof (rule Cons.IH [of dn1 "cur1 @ [cmd]" ddn1 "dcur1 @ dc" drest' ps1])
    show "MoveToCmd \<notin> set (tl (cur1 @ [cmd]))"
      using cur1(1,3) by (cases cur1) auto
    show "(cmd = CloseCmd \<or> closed1) = (cur1 @ [cmd] \<noteq> [] \<and> last (cur1 @ [cmd]) = CloseCmd)"
      using cur1(4) by simp
    show "(sx', sy') = last_MoveTo (dn1 @ cur1 @ [cmd]) (ddn1 @ dcur1 @ dc) (0, 0)"
      by (rule s')
  qed (use inv1 ldc ldr cur1 in \<open>simp_all\<close>)
  obtain qs where
    "Split_loop p rest ps1 (cmd = CloseCmd \<or> closed1) (length ddn1) (?j + Len cmd)
        (length dn1) (length dn + length cur + 1) sx' sy' = Some qs" "split_result p qs"
  proof -
    have e1: "length ddn1 + length (dcur1 @ dc) = ?j + Len cmd"
      using j1(1) ldc by simp
    have e2: "length dn1 + length (cur1 @ [cmd]) = length dn + length cur + 1"
      using j1(2) by simp
    from run [unfolded e1 e2] that show ?thesis
      by blast
  qed
  with bnd rd show ?case
    by (subst Split_loop_Cons) simp
qed

lemma Split_ok:
  assumes "arity_ok p"
  shows "\<exists>qs. Split p = Some qs \<and> split_result p qs"
  using Split_loop_inv [of p "[]" "[]" "cmds p" "[]" "[]" "d p" "[]" False 0 0] assms
  by (simp add: Split_def arity_ok_def fragments_ok_Nil)

lemma produced_arity_ok:
  assumes "flattener_ok fl"
  shows "produced fl p \<Longrightarrow> arity_ok p"
proof (induction rule: produced.induct)
  case (p_Split p ps r)
  with Split_ok [of p] show ?case
    by (auto simp: split_result_def fragments_ok_def)
next
  case (p_Reverse p r)
  have "arity_ok empty_path \<and> (\<forall>x y. arity_ok (MoveTo empty_path x y))"
    by (simp add: arity_ok_builders)
  with p_Reverse(2) show ?case
    by (auto simp: Reverse_def Let_def split: if_splits prod.splits
        elim!: Reverse_loop_builds [of arity_ok, rotated -1] intro: arity_ok_builders)
next
  case (p_FlattenBeziers p tolerance r)
  have run: "FlattenBeziers_loop fl tolerance (Copy p, 0, 0, (0, 0)) = Some r"
    using p_FlattenBeziers(2) by (simp add: FlattenBeziers_def)
  have init: "arity_ok (fst (Copy p, 0::nat, 0::nat, (0::real, 0::real)))"
    using p_FlattenBeziers(3) by (simp add: arity_ok_shapes)
  from FlattenBeziers_loop_keeps [where P = "\<lambda>st. arity_ok (fst st)", OF _ init run]
    FlattenBeziers_step_arity_ok [OF assms]
  show ?case by blast
qed (auto intro: arity_ok_builders arity_ok_shapes arity_ok_Append arity_ok_Translate)






section \<open>Shared arrays: the builders and Split on the store\<close>






















section \<open>Rejoining the fragments\<close>

lemma Split_example:
  "Split (MoveTo (LineTo (Close (LineTo (MoveTo empty_path 1 1) 2 2)) 3 3) 4 4)
     = Some [\<lparr>cmds = [MoveToCmd, LineToCmd, CloseCmd], d = [1, 1, 2, 2, 1, 1], x0 = 1, y0 = 1\<rparr>,
             \<lparr>cmds = [LineToCmd], d = [3, 3], x0 = 1, y0 = 1\<rparr>,
             \<lparr>cmds = [MoveToCmd], d = [4, 4], x0 = 4, y0 = 4\<rparr>]"
  by (simp add: Split_def fragment_def slice_def idx_def builders)

text \<open>
  C6. On a path that keeps the arity invariant \<^verbatim>\<open>Split\<close> returns, and the commands and
  the coordinates of its fragments, concatenated in the order returned, are the commands
  and the coordinates of the path. No fragment is empty, a MoveTo stands only at the
  head of a fragment, and a Close only at the end of one: there is a boundary before each
  MoveTo that does not start a fragment and after each Close that more commands follow.
\<close>

theorem C6_split_rejoin:
  assumes "arity_ok p"
  shows "\<exists>ps. Split p = Some ps \<and> concat (map cmds ps) = cmds p \<and> concat (map d ps) = d p
           \<and> (\<forall>f\<in>set ps. fragment_ok f)"
  using Split_ok [OF assms] by (auto simp: split_result_def fragments_ok_def)

theorem C6_split_rejoin_witness:
  "arity_ok (MoveTo (LineTo (Close (LineTo (MoveTo empty_path 1 1) 2 2)) 3 3) 4 4)
   \<and> (\<exists>ps. Split (MoveTo (LineTo (Close (LineTo (MoveTo empty_path 1 1) 2 2)) 3 3) 4 4) = Some ps
         \<and> length ps = 3
         \<and> concat (map cmds ps) = [MoveToCmd, LineToCmd, CloseCmd, LineToCmd, MoveToCmd]
         \<and> concat (map d ps) = [1, 1, 2, 2, 1, 1, 3, 3, 4, 4]
         \<and> (\<forall>f\<in>set ps. fragment_ok f))"
proof -
  have ok: "arity_ok (MoveTo (LineTo (Close (LineTo (MoveTo empty_path 1 1) 2 2)) 3 3) 4 4)"
    by (intro arity_ok_builders)
  from C6_split_rejoin [OF ok] ok Split_example show ?thesis
    by (auto simp: builders)
qed

section \<open>The start invariant\<close>








lemma arity_take_Suc:
  "icmd < length cs \<Longrightarrow> arity (take (Suc icmd) cs) = arity (take icmd cs) + Len (cs ! icmd)"
  by (simp add: take_Suc_conv_app_nth)











section \<open>FlattenBeziers\<close>

lemma arity_take_le: "arity (take n cs) \<le> arity cs"
proof -
  have "arity cs = arity (take n cs) + arity (drop n cs)"
    by (metis append_take_drop_id arity_append)
  then show ?thesis by simp
qed

lemma point_before_Some:
  "j \<le> length ds \<Longrightarrow> 2 \<le> j \<Longrightarrow> point_before ds j = Some (ds ! (j - 2), ds ! (j - 1))"
  by (auto simp: point_before_def idx_def)

lemma FlattenBeziers_step_no_curve:
  assumes ok: "arity_ok p" and lt: "icmd < length (cmds p)"
    and nq: "cmds p ! icmd \<noteq> QuadToCmd" and nc: "cmds p ! icmd \<noteq> CubeToCmd"
    and i: "i = arity (take icmd (cmds p))"
  shows "\<exists>s'. FlattenBeziers_step fl tol (p, icmd, i, s) = Some (p, icmd + 1, i + Len (cmds p ! icmd), s')"
proof -
  let ?j = "i + Len (cmds p ! icmd)"
  have "?j = arity (take (Suc icmd) (cmds p))"
    using lt i by (simp add: arity_take_Suc)
  with arity_take_le [of "Suc icmd" "cmds p"] ok have le: "?j \<le> length (d p)"
    by (simp add: arity_ok_def)
  moreover have "2 \<le> ?j"
    using Len_ge2 [of "cmds p ! icmd"] by simp
  ultimately have "point_before (d p) ?j = Some (d p ! (?j - 2), d p ! (?j - 1))"
    by (rule point_before_Some)
  then obtain s' where "point_before (d p) ?j = Some s'"
    by blast
  with lt nq nc show ?thesis
    by (cases "cmds p ! icmd") (auto simp: FlattenBeziers_step_def idx_def)
qed

lemma FlattenBeziers_loop_no_curves:
  assumes ok: "arity_ok p" and nq: "QuadToCmd \<notin> set (cmds p)" and nc: "CubeToCmd \<notin> set (cmds p)"
  shows "icmd \<le> length (cmds p) \<Longrightarrow> i = arity (take icmd (cmds p))
    \<Longrightarrow> FlattenBeziers_loop fl tol (p, icmd, i, s) = Some p"
proof (induction "length (cmds p) - icmd" arbitrary: icmd i s)
  case 0
  then show ?case
    by (subst FlattenBeziers_loop.simps) simp
next
  case (Suc n)
  then have lt: "icmd < length (cmds p)"
    by simp
  with nq nc have "cmds p ! icmd \<noteq> QuadToCmd" "cmds p ! icmd \<noteq> CubeToCmd"
    by (metis nth_mem)+
  from FlattenBeziers_step_no_curve [OF ok lt this Suc.prems(2)]
  obtain s' where st: "FlattenBeziers_step fl tol (p, icmd, i, s)
      = Some (p, icmd + 1, i + Len (cmds p ! icmd), s')"
    by blast
  have "FlattenBeziers_loop fl tol (p, icmd + 1, i + Len (cmds p ! icmd), s') = Some p"
  proof (rule Suc.hyps(1))
    show "n = length (cmds p) - (icmd + 1)"
      using Suc.hyps(2) by simp
    show "icmd + 1 \<le> length (cmds p)"
      using lt by simp
    show "i + Len (cmds p ! icmd) = arity (take (icmd + 1) (cmds p))"
      using lt Suc.prems(2) by (simp add: arity_take_Suc)
  qed
  with st lt show ?case
    by (subst FlattenBeziers_loop.simps) simp
qed

lemma FlattenBeziers_no_curves:
  assumes "arity_ok p" "QuadToCmd \<notin> set (cmds p)" "CubeToCmd \<notin> set (cmds p)"
  shows "FlattenBeziers fl p tolerance = Some p"
proof -
  have c: "Copy p = p"
    by (simp add: Copy_def)
  show ?thesis
    unfolding FlattenBeziers_def c
    by (rule FlattenBeziers_loop_no_curves [OF assms]) simp_all
qed

lemma nth_mid: "k < length m \<Longrightarrow> (a @ m @ b) ! (length a + k) = m ! k"
  by (simp add: nth_append)

lemma point_before_mid:
  assumes "2 \<le> length m"
  shows "point_before (a @ m @ b) (length a + length m) = Some (m ! (length m - 2), m ! (length m - 1))"
proof -
  have e: "length a + length m - 2 = length a + (length m - 2)"
    "length a + length m - 1 = length a + (length m - 1)"
    using assms by simp_all
  have "point_before (a @ m @ b) (length a + length m)
      = Some ((a @ m @ b) ! (length a + length m - 2), (a @ m @ b) ! (length a + length m - 1))"
    by (rule point_before_Some) (use assms in simp_all)
  also have "(a @ m @ b) ! (length a + length m - 2) = m ! (length m - 2)"
    unfolding e by (rule nth_mid) (use assms in simp)
  also have "(a @ m @ b) ! (length a + length m - 1) = m ! (length m - 1)"
    unfolding e by (rule nth_mid) (use assms in simp)
  finally show ?thesis .
qed

lemma step_other:
  assumes c: "cmds p = dc @ cmd # rest" and x: "d p = dd @ xs" and l: "Len cmd \<le> length xs"
    and n: "cmd \<noteq> QuadToCmd" "cmd \<noteq> CubeToCmd"
  shows "FlattenBeziers_step fl tol (p, length dc, length dd, start)
    = Some (p, length dc + 1, length dd + Len cmd, (xs ! (Len cmd - 2), xs ! (Len cmd - 1)))"
proof -
  have i: "idx (cmds p) (length dc) = Some cmd"
    by (simp add: c idx_def)
  have two: "2 \<le> Len cmd"
    by (rule Len_ge2)
  have dp: "d p = dd @ take (Len cmd) xs @ drop (Len cmd) xs"
    by (simp add: x)
  have lt: "length (take (Len cmd) xs) = Len cmd"
    using l by simp
  have "point_before (d p) (length dd + length (take (Len cmd) xs))
      = Some (take (Len cmd) xs ! (length (take (Len cmd) xs) - 2),
              take (Len cmd) xs ! (length (take (Len cmd) xs) - 1))"
    unfolding dp by (rule point_before_mid) (use two lt in simp)
  then have pb: "point_before (d p) (length dd + Len cmd)
      = Some (xs ! (Len cmd - 2), xs ! (Len cmd - 1))"
    unfolding lt using two by simp
  show ?thesis
    using n pb by (cases cmd) (simp_all add: FlattenBeziers_step_def i Let_def)
qed

lemma replaceCmd_at:
  assumes c: "cmds p = dc @ cmd # rest" and x: "d p = dd @ xs" and l: "Len cmd \<le> length xs"
  shows "replaceCmd p (length dc) (length dd) q
    = Some (p\<lparr>cmds := dc @ cmds q @ rest, d := dd @ d q @ drop (Len cmd) xs\<rparr>,
            int (length dc) + (int (length (cmds q)) - 1), length dd + length (d q))"
  using l by (simp add: replaceCmd_def c x idx_def slice_def slice_from_def)

lemma splice_tail:
  assumes q: "lines_only q" and n: "d q \<noteq> []"
  shows "point_before (dd @ d q @ ys) (length dd + length (d q))
    = Some (d q ! (length (d q) - 2), d q ! (length (d q) - 1))"
proof -
  from q n have two: "2 \<le> length (d q)"
    by (cases "cmds q") (auto simp: lines_only_def)
  from point_before_mid [OF two, of dd ys] show ?thesis .
qed

lemma idx_after: "k < length xs \<Longrightarrow> idx (dd @ xs) (length dd + k) = Some (xs ! k)"
  by (simp add: idx_def nth_append)

lemma step_splice:
  assumes c: "cmds p = dc @ cmd # rest" and x: "d p = dd @ xs" and l: "Len cmd \<le> length xs"
    and q: "lines_only q"
  shows "do {
           (p, icmd, i) \<leftarrow> replaceCmd p (length dc) (length dd) q;
           if length (d q) = 0 then Some (p, nat (icmd + 1), i, start)
           else do { start \<leftarrow> point_before (d p) i; Some (p, nat (icmd + 1), i, start) }
         }
    = Some (p\<lparr>cmds := dc @ cmds q @ rest, d := dd @ d q @ drop (Len cmd) xs\<rparr>,
            length dc + length (cmds q), length dd + length (d q),
            if d q = [] then start else (d q ! (length (d q) - 2), d q ! (length (d q) - 1)))"
proof -
  have n: "nat (int (length dc) + int (length (cmds q))) = length dc + length (cmds q)"
    by (simp add: nat_add_distrib)
  show ?thesis
    unfolding replaceCmd_at [OF c x l]
    by (simp add: n splice_tail [OF q] del: One_nat_def)
qed

lemma step_quad:
  assumes c: "cmds p = dc @ QuadToCmd # rest" and x: "d p = dd @ xs" and l: "4 \<le> length xs"
    and fl: "flattener_ok fl"
  shows "FlattenBeziers_step fl tol (p, length dc, length dd, start)
    = (let ctrl = (xs ! 0, xs ! 1); e = (xs ! 2, xs ! 3);
           c1 = (fst start + 2 / 3 * (fst ctrl - fst start), snd start + 2 / 3 * (snd ctrl - snd start));
           c2 = (fst e + 2 / 3 * (fst ctrl - fst e), snd e + 2 / 3 * (snd ctrl - snd e));
           q = fl start c1 c2 e 0 tol
       in Some (p\<lparr>cmds := dc @ cmds q @ rest, d := dd @ d q @ drop 4 xs\<rparr>,
            length dc + length (cmds q), length dd + length (d q),
            if d q = [] then start else (d q ! (length (d q) - 2), d q ! (length (d q) - 1))))"
proof -
  have i: "idx (cmds p) (length dc) = Some QuadToCmd"
    by (simp add: c idx_def)
  have r: "idx (d p) (length dd) = Some (xs ! 0)" "idx (d p) (length dd + 1) = Some (xs ! 1)"
    "idx (d p) (length dd + 2) = Some (xs ! 2)" "idx (d p) (length dd + 3) = Some (xs ! 3)"
    "idx (d p) (Suc (length dd)) = Some (xs ! 1)" "idx (d p) (Suc (Suc (length dd))) = Some (xs ! 2)"
    using l by (auto simp add: x idx_def nth_append)
  have q: "lines_only (fl a b c' e 0 tol)" for a b c' e
    using fl unfolding flattener_ok_def by blast
  have l': "Len QuadToCmd \<le> length xs"
    using l by simp
  show ?thesis
    unfolding FlattenBeziers_step_def
    by (simp add: i r Interpolate_def Let_def step_splice [OF c x l' q, simplified])
qed


lemma step_cube:
  assumes c: "cmds p = dc @ CubeToCmd # rest" and x: "d p = dd @ xs" and l: "6 \<le> length xs"
    and fl: "flattener_ok fl"
  shows "FlattenBeziers_step fl tol (p, length dc, length dd, start)
    = (let c1 = (xs ! 0, xs ! 1); c2 = (xs ! 2, xs ! 3); e = (xs ! 4, xs ! 5);
           q = fl start c1 c2 e 0 tol
       in Some (p\<lparr>cmds := dc @ cmds q @ rest, d := dd @ d q @ drop 6 xs\<rparr>,
            length dc + length (cmds q), length dd + length (d q),
            if d q = [] then start else (d q ! (length (d q) - 2), d q ! (length (d q) - 1))))"
proof -
  have i: "idx (cmds p) (length dc) = Some CubeToCmd"
    by (simp add: c idx_def)
  have r: "idx (d p) (length dd) = Some (xs ! 0)" "idx (d p) (length dd + 1) = Some (xs ! 1)"
    "idx (d p) (length dd + 2) = Some (xs ! 2)" "idx (d p) (length dd + 3) = Some (xs ! 3)"
    "idx (d p) (length dd + 4) = Some (xs ! 4)" "idx (d p) (length dd + 5) = Some (xs ! 5)"
    "idx (d p) (Suc (length dd)) = Some (xs ! 1)" "idx (d p) (Suc (Suc (length dd))) = Some (xs ! 2)"
    using l by (auto simp add: x idx_def nth_append)
  have q: "lines_only (fl a b c' e 0 tol)" for a b c' e
    using fl unfolding flattener_ok_def by blast
  have l': "Len CubeToCmd \<le> length xs"
    using l by simp
  show ?thesis
    unfolding FlattenBeziers_step_def
    by (simp add: i r Let_def step_splice [OF c x l' q, simplified])
qed

lemma FlattenBeziers_loop_flattened:
  assumes fl: "flattener_ok fl"
  shows "length xs = arity cs \<Longrightarrow> cmds p = dc @ cs \<Longrightarrow> d p = dd @ xs \<Longrightarrow>
    FlattenBeziers_loop fl tol (p, length dc, length dd, start)
      = Some (p\<lparr>cmds := dc @ fst (flattened fl tol cs xs start),
                d := dd @ snd (flattened fl tol cs xs start)\<rparr>)"
proof (induction cs arbitrary: xs p dc dd start)
  case Nil
  then show ?case
    by (subst FlattenBeziers_loop.simps) simp
next
  case (Cons cmd rest)
  have len: "length xs = Len cmd + arity rest"
    using Cons.prems(1) by simp
  then have l: "Len cmd \<le> length xs"
    by simp
  have lt: "length dc < length (cmds p)"
    by (simp add: Cons.prems(2))
  have unroll: "FlattenBeziers_loop fl tol (p, length dc, length dd, start)
      = (case FlattenBeziers_step fl tol (p, length dc, length dd, start) of
           None \<Rightarrow> None | Some st' \<Rightarrow> FlattenBeziers_loop fl tol st')"
    using lt by (subst FlattenBeziers_loop.simps) simp
  show ?case
  proof (cases "cmd = QuadToCmd \<or> cmd = CubeToCmd")
    case False
    then have n: "cmd \<noteq> QuadToCmd" "cmd \<noteq> CubeToCmd"
      by simp_all
    let ?s = "(xs ! (Len cmd - 2), xs ! (Len cmd - 1))"
    have ih: "FlattenBeziers_loop fl tol (p, length (dc @ [cmd]), length (dd @ take (Len cmd) xs), ?s)
        = Some (p\<lparr>cmds := (dc @ [cmd]) @ fst (flattened fl tol rest (drop (Len cmd) xs) ?s),
                  d := (dd @ take (Len cmd) xs) @ snd (flattened fl tol rest (drop (Len cmd) xs) ?s)\<rparr>)"
      by (rule Cons.IH) (simp_all add: len Cons.prems)
    have f: "flattened fl tol (cmd # rest) xs start
        = (cmd # fst (flattened fl tol rest (drop (Len cmd) xs) ?s),
           take (Len cmd) xs @ snd (flattened fl tol rest (drop (Len cmd) xs) ?s))"
      using n by (cases cmd) (simp_all add: Let_def case_prod_beta)
    show ?thesis
      unfolding unroll step_other [OF Cons.prems(2) Cons.prems(3) l n] f
      using ih l by (simp add: min_absorb2)
  next
    case True
    then show ?thesis
    proof
      assume q: "cmd = QuadToCmd"
      define g where "g = fl start
        (fst start + 2 / 3 * (xs ! 0 - fst start), snd start + 2 / 3 * (xs ! 1 - snd start))
        (xs ! 2 + 2 / 3 * (xs ! 0 - xs ! 2), xs ! 3 + 2 / 3 * (xs ! 1 - xs ! 3))
        (xs ! 2, xs ! 3) 0 tol"
      let ?s = "if d g = [] then start else (d g ! (length (d g) - 2), d g ! (length (d g) - 1))"
      let ?p = "p\<lparr>cmds := dc @ cmds g @ rest, d := dd @ d g @ drop 4 xs\<rparr>"
      have l4: "4 \<le> length xs"
        using l q by simp
      have c: "cmds p = dc @ QuadToCmd # rest"
        using Cons.prems(2) q by simp
      have st: "FlattenBeziers_step fl tol (p, length dc, length dd, start)
          = Some (?p, length dc + length (cmds g), length dd + length (d g), ?s)"
        unfolding step_quad [OF c Cons.prems(3) l4 fl] g_def by (simp add: Let_def)
      have ih: "FlattenBeziers_loop fl tol (?p, length (dc @ cmds g), length (dd @ d g), ?s)
          = Some (?p\<lparr>cmds := (dc @ cmds g) @ fst (flattened fl tol rest (drop 4 xs) ?s),
                    d := (dd @ d g) @ snd (flattened fl tol rest (drop 4 xs) ?s)\<rparr>)"
        by (rule Cons.IH) (simp_all add: len q)
      have f: "flattened fl tol (cmd # rest) xs start
          = (cmds g @ fst (flattened fl tol rest (drop 4 xs) ?s),
             d g @ snd (flattened fl tol rest (drop 4 xs) ?s))"
        unfolding q g_def by (simp add: Let_def case_prod_beta)
      show ?thesis
        unfolding unroll st f using ih by simp
    next
      assume q: "cmd = CubeToCmd"
      define g where "g = fl start (xs ! 0, xs ! 1) (xs ! 2, xs ! 3) (xs ! 4, xs ! 5) 0 tol"
      let ?s = "if d g = [] then start else (d g ! (length (d g) - 2), d g ! (length (d g) - 1))"
      let ?p = "p\<lparr>cmds := dc @ cmds g @ rest, d := dd @ d g @ drop 6 xs\<rparr>"
      have l6: "6 \<le> length xs"
        using l q by simp
      have c: "cmds p = dc @ CubeToCmd # rest"
        using Cons.prems(2) q by simp
      have st: "FlattenBeziers_step fl tol (p, length dc, length dd, start)
          = Some (?p, length dc + length (cmds g), length dd + length (d g), ?s)"
        unfolding step_cube [OF c Cons.prems(3) l6 fl] g_def by (simp add: Let_def)
      have ih: "FlattenBeziers_loop fl tol (?p, length (dc @ cmds g), length (dd @ d g), ?s)
          = Some (?p\<lparr>cmds := (dc @ cmds g) @ fst (flattened fl tol rest (drop 6 xs) ?s),
                    d := (dd @ d g) @ snd (flattened fl tol rest (drop 6 xs) ?s)\<rparr>)"
        by (rule Cons.IH) (simp_all add: len q)
      have f: "flattened fl tol (cmd # rest) xs start
          = (cmds g @ fst (flattened fl tol rest (drop 6 xs) ?s),
             d g @ snd (flattened fl tol rest (drop 6 xs) ?s))"
        unfolding q g_def by (simp add: Let_def case_prod_beta)
      show ?thesis
        unfolding unroll st f using ih by simp
    qed
  qed
qed

lemma flattener_ok_control_polygon: "flattener_ok control_polygon"
  by (simp add: flattener_ok_def lines_only_def control_polygon_def builders)

text \<open>
  C9. \<^verbatim>\<open>FlattenBeziers\<close> returns a path without QuadTo and CubeTo as it is. On every path
  that keeps the arity invariant, and for every cubic flattener that keeps its contract,
  it returns the path that \<open>flattened\<close> describes: each QuadTo, with the control point
  \<open>ctrl\<close> and the end point \<open>e\<close>, is replaced by what the cubic flattener returns for the
  start point, \<open>c1 = start + 2/3 (ctrl - start)\<close>, \<open>c2 = end + 2/3 (ctrl - end)\<close> and \<open>e\<close>,
  where the start point is the end point of what stands before the QuadTo in the result
  (\<open>(0, 0)\<close> at the head of the path).
\<close>

theorem C9_flatten_beziers:
  "(arity_ok p \<and> QuadToCmd \<notin> set (cmds p) \<and> CubeToCmd \<notin> set (cmds p)
      \<longrightarrow> FlattenBeziers fl p tolerance = Some p)
   \<and> (arity_ok p \<and> flattener_ok fl
      \<longrightarrow> FlattenBeziers fl p tolerance =
          Some (p\<lparr>cmds := fst (flattened fl tolerance (cmds p) (d p) (0, 0)),
                  d := snd (flattened fl tolerance (cmds p) (d p) (0, 0))\<rparr>))"
proof (intro conjI impI)
  assume "arity_ok p \<and> QuadToCmd \<notin> set (cmds p) \<and> CubeToCmd \<notin> set (cmds p)"
  then show "FlattenBeziers fl p tolerance = Some p"
    by (simp add: FlattenBeziers_no_curves)
next
  assume a: "arity_ok p \<and> flattener_ok fl"
  have c: "Copy p = p"
    by (simp add: Copy_def)
  from a have l: "length (d p) = arity (cmds p)"
    by (simp add: arity_ok_def)
  from a have fl: "flattener_ok fl"
    by simp
  from FlattenBeziers_loop_flattened [OF fl l, of p "[]" "[]" tolerance "(0, 0)"]
  show "FlattenBeziers fl p tolerance =
          Some (p\<lparr>cmds := fst (flattened fl tolerance (cmds p) (d p) (0, 0)),
                  d := snd (flattened fl tolerance (cmds p) (d p) (0, 0))\<rparr>)"
    by (simp add: FlattenBeziers_def c)
qed

text \<open>
  The witness: a rectangle is returned as it is, and the two QuadTo of
  \<open>M1 1 Q4 4 7 1 Q10 -2 13 1\<close>, flattened by the polygon of the control points, become
  the lines to \<open>(3, 3)\<close>, \<open>(5, 3)\<close>, \<open>(7, 1)\<close> and to \<open>(9, -1)\<close>, \<open>(11, -1)\<close>, \<open>(13, 1)\<close>:
  the second QuadTo starts at \<open>(7, 1)\<close>, the end of the lines of the first.
\<close>

theorem C9_flatten_beziers_witness:
  "arity_ok (Rect empty_path 0 0 10 20)
   \<and> QuadToCmd \<notin> set (cmds (Rect empty_path 0 0 10 20))
   \<and> CubeToCmd \<notin> set (cmds (Rect empty_path 0 0 10 20))
   \<and> FlattenBeziers chord (Rect empty_path 0 0 10 20) 1 = Some (Rect empty_path 0 0 10 20)
   \<and> arity_ok (QuadTo (QuadTo (MoveTo empty_path 1 1) 4 4 7 1) 10 (- 2) 13 1)
   \<and> flattener_ok control_polygon
   \<and> FlattenBeziers control_polygon (QuadTo (QuadTo (MoveTo empty_path 1 1) 4 4 7 1) 10 (- 2) 13 1) 1
      = Some \<lparr>cmds = [MoveToCmd, LineToCmd, LineToCmd, LineToCmd, LineToCmd, LineToCmd, LineToCmd],
               d = [1, 1, 3, 3, 5, 3, 7, 1, 9, - 1, 11, - 1, 13, 1], x0 = 1, y0 = 1\<rparr>"
proof -
  have ok: "arity_ok (Rect empty_path 0 0 10 20)"
    by (intro arity_ok_shapes arity_ok_builders)
  have nq: "QuadToCmd \<notin> set (cmds (Rect empty_path 0 0 10 20))"
    "CubeToCmd \<notin> set (cmds (Rect empty_path 0 0 10 20))"
    by (simp_all add: Rect_def builders)
  have okq: "arity_ok (QuadTo (QuadTo (MoveTo empty_path 1 1) 4 4 7 1) 10 (- 2) 13 1)"
    by (intro arity_ok_builders)
  have r: "FlattenBeziers chord (Rect empty_path 0 0 10 20) 1 = Some (Rect empty_path 0 0 10 20)"
    using C9_flatten_beziers [of "Rect empty_path 0 0 10 20" chord 1] ok nq by blast
  have q: "FlattenBeziers control_polygon (QuadTo (QuadTo (MoveTo empty_path 1 1) 4 4 7 1) 10 (- 2) 13 1) 1
      = Some \<lparr>cmds = [MoveToCmd, LineToCmd, LineToCmd, LineToCmd, LineToCmd, LineToCmd, LineToCmd],
               d = [1, 1, 3, 3, 5, 3, 7, 1, 9, - 1, 11, - 1, 13, 1], x0 = 1, y0 = 1\<rparr>"
    using C9_flatten_beziers [of "QuadTo (QuadTo (MoveTo empty_path 1 1) 4 4 7 1) 10 (- 2) 13 1" control_polygon 1]
      okq flattener_ok_control_polygon
    by (simp add: control_polygon_def builders)
  from ok nq okq flattener_ok_control_polygon r q show ?thesis
    by simp
qed

end
